theory Spec2Isabelle
  imports Complex_Main "HOL-Library.AList" "HOL-Library.Stream" "HOL-Library.Signed_Division"
begin

section \<open>The JavaScript runtime as far as the simulator uses it\<close>

subsection \<open>Dates\<close>

text \<open>
  A valid JavaScript \<open>Date\<close> is a time value: the milliseconds since
  1970-01-01T00:00:00Z, an integer. The accessors \<open>getMonth\<close>, \<open>getDay\<close>,
  \<open>getHours\<close> and \<open>getMinutes\<close> read the local time, which is the time value
  shifted by the host's time zone offset. The record keeps that offset beside the time
  value (a constant offset, as in Nepal, which has no daylight saving time), so that the
  accessors are functions of the date alone, as in the source. Invalid dates (a time value
  of NaN) are outside the model.
\<close>

record Date =
  getTime :: int
  localTZA :: int

definition msPerDay :: int where
  "msPerDay = 86400000"

definition Day :: "int \<Rightarrow> int" where
  "Day t = t div msPerDay"

definition WeekDay :: "int \<Rightarrow> int" where
  "WeekDay t = (Day t + 4) mod 7"

definition HourFromTime :: "int \<Rightarrow> int" where
  "HourFromTime t = (t div 3600000) mod 24"

definition MinFromTime :: "int \<Rightarrow> int" where
  "MinFromTime t = (t div 60000) mod 60"

text \<open>
  The month of a time value, January being 0, in the proleptic Gregorian calendar: the
  day number is counted from 0000-03-01 and reduced to the day of its 400-year era; from
  that the year of the era, the day of the (March-based) year, and the month.
\<close>

definition YearOfEra :: "int \<Rightarrow> int" where
  "YearOfEra doe = (doe - doe div 1460 + doe div 36524 - doe div 146096) div 365"

definition DayOfYear :: "int \<Rightarrow> int \<Rightarrow> int" where
  "DayOfYear doe yoe = doe - (365 * yoe + yoe div 4 - yoe div 100)"

definition MonthOfDay :: "int \<Rightarrow> int" where
  "MonthOfDay doy =
     (if (5 * doy + 2) div 153 < 10 then (5 * doy + 2) div 153 + 2
      else (5 * doy + 2) div 153 - 10)"

definition MonthFromTime :: "int \<Rightarrow> int" where
  "MonthFromTime t =
     MonthOfDay (DayOfYear ((Day t + 719468) mod 146097)
                   (YearOfEra ((Day t + 719468) mod 146097)))"

definition LocalTime :: "Date \<Rightarrow> int" where
  "LocalTime d = getTime d + localTZA d"

definition getMonth :: "Date \<Rightarrow> int" where
  "getMonth d = MonthFromTime (LocalTime d)"

definition getDay :: "Date \<Rightarrow> int" where
  "getDay d = WeekDay (LocalTime d)"

definition getHours :: "Date \<Rightarrow> int" where
  "getHours d = HourFromTime (LocalTime d)"

definition getMinutes :: "Date \<Rightarrow> int" where
  "getMinutes d = MinFromTime (LocalTime d)"

text \<open>\<open>new Date(d.getTime() + ms)\<close>, for an integral number of milliseconds.\<close>

definition Date_plus :: "Date \<Rightarrow> int \<Rightarrow> Date" where
  "Date_plus d ms = d\<lparr>getTime := getTime d + ms\<rparr>"

subsection \<open>Numbers\<close>

text \<open>
  JavaScript numbers are modelled by the reals (and by the integers where the
  configuration only holds integers); rounding of IEEE doubles is outside the model.
  \<open>parseFloat(x.toFixed(n))\<close> rounds to \<open>n\<close> decimals, a tie going away from zero.
\<close>

definition toFixed :: "nat \<Rightarrow> real \<Rightarrow> real" where
  "toFixed n x =
     (if x < 0 then - (of_int \<lfloor>- x * 10 ^ n + 1 / 2\<rfloor> / 10 ^ n)
      else of_int \<lfloor>x * 10 ^ n + 1 / 2\<rfloor> / 10 ^ n)"

text \<open>
  \<open>Math.random()\<close> reads the next value of a source of draws, each in \<open>[0, 1)\<close>. The
  source is a stream that every function drawing from it takes and returns.
\<close>

definition Math_random :: "real stream \<Rightarrow> real \<times> real stream" where
  "Math_random rs = (shd rs, stl rs)"

definition valid_random :: "real stream \<Rightarrow> bool" where
  "valid_random rs = (\<forall>i. 0 \<le> rs !! i \<and> rs !! i < 1)"

section \<open>The configuration (simulator/config.js)\<close>

record Appliance =
  power :: real
  cycle :: "int option"
  dutyCycle :: "real option"
  probability :: "real option"
  alwaysOn :: bool

record ProfileConfig =
  baseline :: real
  appliances :: "(string \<times> Appliance) list"

record TimePatterns =
  weekday :: "real list"
  weekend :: "real list"

record OccasionalAppliance =
  occ_power :: real
  occ_duration :: int
  occ_probability :: real

record SeasonalMultipliers =
  spring :: real
  summer :: real
  monsoon :: real
  winter :: real

record Electrical =
  baseVoltage :: real
  voltageVariation :: real
  powerFactor :: real
  frequency :: real

record AnomalyKind =
  multiplier :: "real option"
  voltageMultiplier :: "real option"
  duration :: int

record Anomalies =
  anomaly_probability :: real
  types :: "(string \<times> AnomalyKind) list"

record Simulation =
  sampleInterval :: int
  maxSamplesPerBatch :: int

record Config =
  baseConsumption :: "(string \<times> ProfileConfig) list"
  timePatterns :: TimePatterns
  occasionalAppliances :: "(string \<times> OccasionalAppliance) list"
  seasonalMultipliers :: SeasonalMultipliers
  electrical :: Electrical
  anomalies :: Anomalies
  simulation :: Simulation

text \<open>The three shapes of appliance entries the configuration uses.\<close>

definition cyclic :: "real \<Rightarrow> int \<Rightarrow> real \<Rightarrow> Appliance" where
  "cyclic p c d =
     \<lparr>power = p, cycle = Some c, dutyCycle = Some d, probability = None, alwaysOn = False\<rparr>"

definition probabilistic :: "real \<Rightarrow> real \<Rightarrow> Appliance" where
  "probabilistic p q =
     \<lparr>power = p, cycle = None, dutyCycle = None, probability = Some q, alwaysOn = False\<rparr>"

definition always_on :: "real \<Rightarrow> Appliance" where
  "always_on p =
     \<lparr>power = p, cycle = None, dutyCycle = None, probability = None, alwaysOn = True\<rparr>"

definition occasional :: "real \<Rightarrow> int \<Rightarrow> real \<Rightarrow> OccasionalAppliance" where
  "occasional p d q = \<lparr>occ_power = p, occ_duration = d, occ_probability = q\<rparr>"

definition profile_normal :: ProfileConfig where
  "profile_normal =
     \<lparr>baseline = 120,
      appliances =
        [(''refrigerator'', cyclic 120 30 (7 / 10)),
         (''led_lights'', probabilistic 8 (4 / 10)),
         (''electronics_standby'', probabilistic 20 (6 / 10)),
         (''wifi_router'', always_on 6),
         (''fan'', probabilistic 60 (5 / 10))]\<rparr>"

definition profile_high :: ProfileConfig where
  "profile_high =
     \<lparr>baseline = 180,
      appliances =
        [(''refrigerator'', cyclic 150 25 (8 / 10)),
         (''led_lights'', probabilistic 12 (6 / 10)),
         (''electronics_standby'', probabilistic 35 (8 / 10)),
         (''wifi_router'', always_on 8),
         (''fan'', probabilistic 75 (7 / 10))]\<rparr>"

definition profile_low :: ProfileConfig where
  "profile_low =
     \<lparr>baseline = 80,
      appliances =
        [(''refrigerator'', cyclic 100 35 (6 / 10)),
         (''led_lights'', probabilistic 6 (2 / 10)),
         (''electronics_standby'', probabilistic 12 (4 / 10)),
         (''wifi_router'', always_on 5),
         (''fan'', probabilistic 50 (3 / 10))]\<rparr>"

definition profile_vacation :: ProfileConfig where
  "profile_vacation =
     \<lparr>baseline = 40,
      appliances =
        [(''refrigerator'', cyclic 120 30 (7 / 10)),
         (''led_lights'', probabilistic 0 0),
         (''electronics_standby'', probabilistic 8 (2 / 10)),
         (''wifi_router'', always_on 6),
         (''fan'', probabilistic 0 0)]\<rparr>"

definition config :: Config where
  "config =
     \<lparr>baseConsumption =
        [(''normal'', profile_normal), (''high'', profile_high),
         (''low'', profile_low), (''vacation'', profile_vacation)],
      timePatterns =
        \<lparr>weekday =
           [2 / 10, 15 / 100, 1 / 10, 5 / 100, 5 / 100, 1 / 10,
            4 / 10, 7 / 10, 8 / 10, 6 / 10, 5 / 10, 4 / 10,
            5 / 10, 6 / 10, 5 / 10, 4 / 10, 5 / 10, 7 / 10,
            9 / 10, 1, 9 / 10, 7 / 10, 5 / 10, 3 / 10],
         weekend =
           [2 / 10, 15 / 100, 1 / 10, 5 / 100, 5 / 100, 1 / 10,
            3 / 10, 4 / 10, 5 / 10, 6 / 10, 7 / 10, 8 / 10,
            9 / 10, 1, 9 / 10, 8 / 10, 9 / 10, 1,
            9 / 10, 8 / 10, 7 / 10, 6 / 10, 4 / 10, 3 / 10]\<rparr>,
      occasionalAppliances =
        [(''microwave'', occasional 1000 5 (15 / 1000)),
         (''oven'', occasional 2000 30 (5 / 1000)),
         (''dishwasher'', occasional 1500 90 (2 / 1000)),
         (''washing_machine'', occasional 400 60 (1 / 100)),
         (''dryer'', occasional 2500 45 (1 / 1000)),
         (''air_conditioner'', occasional 1200 20 (2 / 100)),
         (''space_heater'', occasional 1200 30 (3 / 100)),
         (''water_heater'', occasional 3000 15 (2 / 100)),
         (''electric_vehicle'', occasional 5000 180 (1 / 1000)),
         (''water_pump'', occasional 750 10 (5 / 100))],
      seasonalMultipliers =
        \<lparr>spring = 1, summer = 13 / 10, monsoon = 11 / 10, winter = 14 / 10\<rparr>,
      electrical =
        \<lparr>baseVoltage = 230, voltageVariation = 8 / 100, powerFactor = 92 / 100,
         frequency = 50\<rparr>,
      anomalies =
        \<lparr>anomaly_probability = 15 / 10000,
         types =
           [(''powerSurge'',
               \<lparr>multiplier = Some (25 / 10), voltageMultiplier = None, duration = 2\<rparr>),
            (''brownout'',
               \<lparr>multiplier = Some (3 / 10), voltageMultiplier = None, duration = 3\<rparr>),
            (''voltageSpike'',
               \<lparr>multiplier = None, voltageMultiplier = Some (13 / 10), duration = 1\<rparr>),
            (''outage'',
               \<lparr>multiplier = Some 0, voltageMultiplier = None, duration = 5\<rparr>),
            (''voltageDip'',
               \<lparr>multiplier = None, voltageMultiplier = Some (7 / 10), duration = 2\<rparr>)]\<rparr>,
      simulation = \<lparr>sampleInterval = 60, maxSamplesPerBatch = 1440\<rparr>\<rparr>"

section \<open>The simulator (simulator/meter\_simulator.js)\<close>

subsection \<open>Multipliers\<close>

definition getSeasonalMultiplier :: "Config \<Rightarrow> Date \<Rightarrow> real" where
  "getSeasonalMultiplier cfg date =
     (let month = getMonth date
      in if month \<ge> 1 \<and> month \<le> 3 then spring (seasonalMultipliers cfg)
         else if month \<ge> 4 \<and> month \<le> 6 then summer (seasonalMultipliers cfg)
         else if month \<ge> 7 \<and> month \<le> 9 then monsoon (seasonalMultipliers cfg)
         else winter (seasonalMultipliers cfg))"

text \<open>
  The hour of a date is between 0 and 23, and both tables of the configuration have 24
  entries, so the read below is in range.
\<close>

definition getTimePatternMultiplier :: "Config \<Rightarrow> Date \<Rightarrow> real" where
  "getTimePatternMultiplier cfg date =
     (let hour = getHours date;
          dayOfWeek = getDay date;
          isWeekend = (dayOfWeek = 0 \<or> dayOfWeek = 6)
      in if isWeekend then weekend (timePatterns cfg) ! nat hour
         else weekday (timePatterns cfg) ! nat hour)"

subsection \<open>The simulator's state\<close>

record Activation =
  act_power :: real
  endTime :: Date

text \<open>An active anomaly: the configured kind's fields and the kind's name (\<open>type\<close>).\<close>

record Anomaly =
  anom_multiplier :: "real option"
  anom_voltageMultiplier :: "real option"
  anom_duration :: int
  anom_type :: string

text \<open>
  \<open>activeAppliances\<close> is a JavaScript \<open>Map\<close>: an association list in insertion order,
  read with \<open>map_of\<close>, written with \<open>AList.update\<close> (which replaces the value of a key
  that is present and appends a new key), and deleted from with \<open>AList.delete\<close>.
\<close>

record Simulator =
  userId :: string
  profile :: string
  baseConfig :: ProfileConfig
  this_energy_kwh :: real
  activeAppliances :: "(string \<times> Activation) list"
  anomaly :: "Anomaly option"
  anomalyRemaining :: int

text \<open>
  The constructor. \<open>config.baseConsumption[profile] || config.baseConsumption.normal\<close>
  reads an own entry of the table where there is one. For a profile name that the table
  does not hold but every object inherits (the property names of \<open>Object.prototype\<close>) the
  read gives the inherited value, which is truthy: there is no fallback, the value has no
  baseline and no appliances, and every later tick throws. For any other name the read is
  \<open>undefined\<close> and the normal profile is taken; where that is missing too every later
  tick throws. A simulator whose ticks throw is \<open>None\<close> here.
\<close>

definition Object_prototype_names :: "string list" where
  "Object_prototype_names =
     [''constructor'', ''__defineGetter__'', ''__defineSetter__'', ''hasOwnProperty'',
      ''__lookupGetter__'', ''__lookupSetter__'', ''isPrototypeOf'',
      ''propertyIsEnumerable'', ''toString'', ''valueOf'', ''__proto__'',
      ''toLocaleString'']"

definition new_Simulator :: "Config \<Rightarrow> string \<Rightarrow> string \<Rightarrow> Simulator option" where
  "new_Simulator cfg uid prof =
     (case (case map_of (baseConsumption cfg) prof of
              Some p \<Rightarrow> Some p
            | None \<Rightarrow>
                if prof \<in> set Object_prototype_names then None
                else map_of (baseConsumption cfg) ''normal'') of
        None \<Rightarrow> None
      | Some bc \<Rightarrow>
          Some \<lparr>userId = uid, profile = prof, baseConfig = bc, this_energy_kwh = 0,
                activeAppliances = [], anomaly = None, anomalyRemaining = 0\<rparr>)"

subsection \<open>Load components\<close>

text \<open>A number that may be undefined is truthy when it is defined and not zero.\<close>

definition truthy :: "'a::zero option \<Rightarrow> bool" where
  "truthy v = (case v of None \<Rightarrow> False | Some x \<Rightarrow> x \<noteq> 0)"

definition base_step :: "string \<times> Appliance \<Rightarrow> real \<Rightarrow> real" where
  "base_step =
     (\<lambda>(name, appliance) baseLoad.
        if alwaysOn appliance then baseLoad + power appliance else baseLoad)"

definition generateBaseLoad :: "Simulator \<Rightarrow> real" where
  "generateBaseLoad sim =
     fold base_step (appliances (baseConfig sim)) (baseline (baseConfig sim))"

text \<open>
  Each \<open>forEach\<close> over the entries of an object is a \<open>fold\<close> of its body, a step
  function, over the association list. \<open>%\<close> is the remainder of the truncating
  division (\<open>smod\<close>); a comparison with an undefined \<open>dutyCycle\<close> is false.
\<close>

definition cyclical_step :: "Date \<Rightarrow> string \<times> Appliance \<Rightarrow> real \<Rightarrow> real" where
  "cyclical_step date =
     (\<lambda>(name, appliance) cyclicalLoad.
        if truthy (cycle appliance) then
          (let cyclePosition =
                 real_of_int (getMinutes date smod the (cycle appliance))
                   / real_of_int (the (cycle appliance))
           in case dutyCycle appliance of
                None \<Rightarrow> cyclicalLoad
              | Some dc \<Rightarrow>
                  if cyclePosition < dc then cyclicalLoad + power appliance
                  else cyclicalLoad)
        else cyclicalLoad)"

definition generateCyclicalLoad :: "Simulator \<Rightarrow> Date \<Rightarrow> real" where
  "generateCyclicalLoad sim date =
     fold (cyclical_step date) (appliances (baseConfig sim)) 0"

definition probabilistic_step ::
  "real \<Rightarrow> string \<times> Appliance \<Rightarrow> real \<times> real stream \<Rightarrow> real \<times> real stream" where
  "probabilistic_step timeMultiplier =
     (\<lambda>(name, appliance) (probabilisticLoad, rs).
        if truthy (probability appliance) \<and> \<not> alwaysOn appliance
           \<and> \<not> truthy (cycle appliance)
        then
          (let adjustedProbability = the (probability appliance) * timeMultiplier;
               (r, rs') = Math_random rs
           in if r < adjustedProbability then (probabilisticLoad + power appliance, rs')
              else (probabilisticLoad, rs'))
        else (probabilisticLoad, rs))"

definition generateProbabilisticLoad ::
  "Simulator \<Rightarrow> Date \<Rightarrow> real \<Rightarrow> real stream \<Rightarrow> real \<times> real stream" where
  "generateProbabilisticLoad sim date timeMultiplier rs =
     fold (probabilistic_step timeMultiplier) (appliances (baseConfig sim)) (0, rs)"

subsection \<open>Occasional appliances\<close>

text \<open>
  One round of the \<open>forEach\<close> of \<open>startOccasionalAppliances\<close>. The draw is made for
  every appliance, before the test whether the appliance is active.
\<close>

definition occasional_step ::
  "Date \<Rightarrow> real \<Rightarrow> string \<times> OccasionalAppliance
     \<Rightarrow> (string \<times> Activation) list \<times> real stream
     \<Rightarrow> (string \<times> Activation) list \<times> real stream" where
  "occasional_step date timeMultiplier =
     (\<lambda>(name, appliance) (active, rs).
        let hour = getHours date;
            month = getMonth date;
            p0 = occ_probability appliance * timeMultiplier;
            p1 = (if name = ''water_heater''
                     \<and> ((hour \<ge> 6 \<and> hour \<le> 9) \<or> (hour \<ge> 18 \<and> hour \<le> 21))
                  then p0 * 2 else p0);
            p2 = (if name = ''air_conditioner'' \<and> (month \<ge> 4 \<and> month \<le> 6)
                  then p1 * 3 else p1);
            adjustedProbability =
                 (if name = ''space_heater'' \<and> (month \<ge> 10 \<or> month \<le> 0)
                  then p2 * 4 else p2);
            (r, rs') = Math_random rs
        in if r < adjustedProbability \<and> map_of active name = None
           then (AList.update name
                   \<lparr>act_power = occ_power appliance,
                    endTime = Date_plus date (occ_duration appliance * 60000)\<rparr> active,
                 rs')
           else (active, rs'))"

definition startOccasionalAppliances ::
  "Config \<Rightarrow> Simulator \<Rightarrow> Date \<Rightarrow> real \<Rightarrow> real stream \<Rightarrow> Simulator \<times> real stream" where
  "startOccasionalAppliances cfg sim date timeMultiplier rs =
     (let (active, rs') =
            fold (occasional_step date timeMultiplier) (occasionalAppliances cfg)
              (activeAppliances sim, rs)
      in (sim\<lparr>activeAppliances := active\<rparr>, rs'))"

text \<open>
  One round of the loop of \<open>updateActiveAppliances\<close> over the entries of the map. Dates
  compare by their time values.
\<close>

definition update_step ::
  "Date \<Rightarrow> string \<times> Activation \<Rightarrow> real \<times> (string \<times> Activation) list
     \<Rightarrow> real \<times> (string \<times> Activation) list" where
  "update_step date =
     (\<lambda>(name, appliance) (activeLoad, active).
        if getTime date \<ge> getTime (endTime appliance)
        then (activeLoad, AList.delete name active)
        else (activeLoad + act_power appliance, active))"

definition updateActiveAppliances :: "Simulator \<Rightarrow> Date \<Rightarrow> real \<times> Simulator" where
  "updateActiveAppliances sim date =
     (let (activeLoad, active) =
            fold (update_step date) (activeAppliances sim) (0, activeAppliances sim)
      in (activeLoad, sim\<lparr>activeAppliances := active\<rparr>))"

subsection \<open>Anomalies\<close>

text \<open>
  \<open>Object.keys(config.anomalies.types)[i]\<close> and the entry read under that key are the
  \<open>i\<close>-th entry of the table. With a draw in \<open>[0, 1)\<close> and a table that is not empty the
  index is in range.
\<close>

definition checkAnomalies ::
  "Config \<Rightarrow> Simulator \<Rightarrow> real stream \<Rightarrow> Anomaly option \<times> Simulator \<times> real stream" where
  "checkAnomalies cfg sim rs =
     (if anomalyRemaining sim > 0
      then (anomaly sim, sim\<lparr>anomalyRemaining := anomalyRemaining sim - 1\<rparr>, rs)
      else
        (let anomalyProbability = anomaly_probability (anomalies cfg) * (15 / 10);
             (r, rs1) = Math_random rs
         in if r < anomalyProbability then
              (let anomalyTypes = types (anomalies cfg);
                   (r2, rs2) = Math_random rs1;
                   (randomAnomaly, kind) =
                      anomalyTypes ! nat \<lfloor>r2 * real (length anomalyTypes)\<rfloor>;
                   a = \<lparr>anom_multiplier = multiplier kind,
                        anom_voltageMultiplier = voltageMultiplier kind,
                        anom_duration = duration kind,
                        anom_type = randomAnomaly\<rparr>
               in (Some a, sim\<lparr>anomaly := Some a, anomalyRemaining := anom_duration a\<rparr>, rs2))
            else (None, sim, rs1)))"

record Reading =
  user_id :: string
  timestamp :: int
  voltage :: real
  global_active_power :: real
  global_reactive_power :: real
  global_intensity :: real
  energy_kwh :: real
  sample_interval_seconds :: int
  anomaly_type :: "string option"

definition applyAnomaly :: "Reading \<Rightarrow> Anomaly \<Rightarrow> Reading" where
  "applyAnomaly readings a =
     (let readings1 =
            (case anom_multiplier a of
               None \<Rightarrow> readings
             | Some m \<Rightarrow>
                 readings\<lparr>global_active_power := global_active_power readings * m\<rparr>)
      in case anom_voltageMultiplier a of
           None \<Rightarrow> readings1
         | Some v \<Rightarrow> readings1\<lparr>voltage := voltage readings1 * v\<rparr>)"

subsection \<open>One reading\<close>

text \<open>
  \<open>generateMeterReading\<close> in three stages (its parameter \<open>timestamp\<close> is \<open>tstamp\<close>
  here, the name being a field of the reading). The first (to "Combine all loads and apply
  multipliers") starts occasional appliances, sums the four load components and applies
  the seasonal and the time-of-day multiplier.
\<close>

definition combineLoads ::
  "Config \<Rightarrow> Simulator \<Rightarrow> Date \<Rightarrow> real stream \<Rightarrow> real \<times> Simulator \<times> real stream" where
  "combineLoads cfg sim tstamp rs =
     (let seasonalMultiplier = getSeasonalMultiplier cfg tstamp;
          timeMultiplier = getTimePatternMultiplier cfg tstamp;
          (sim1, rs1) = startOccasionalAppliances cfg sim tstamp timeMultiplier rs;
          baseLoad = generateBaseLoad sim1;
          cyclicalLoad = generateCyclicalLoad sim1 tstamp;
          (probabilisticLoad, rs2) =
             generateProbabilisticLoad sim1 tstamp timeMultiplier rs1;
          (activeLoad, sim2) = updateActiveAppliances sim1 tstamp
      in ((baseLoad + cyclicalLoad + probabilisticLoad + activeLoad)
            * seasonalMultiplier * timeMultiplier,
          sim2, rs2))"

text \<open>The second stage ("Add random noise", "Ensure minimum power"), in watts.\<close>

definition noisyFlooredPower ::
  "Config \<Rightarrow> Simulator \<Rightarrow> Date \<Rightarrow> real stream \<Rightarrow> real \<times> Simulator \<times> real stream" where
  "noisyFlooredPower cfg sim tstamp rs =
     (let (combined, sim2, rs2) = combineLoads cfg sim tstamp rs;
          (r, rs3) = Math_random rs2;
          noise = 1 + (r - 5 / 10) * (1 / 10)
      in (max (combined * noise) (baseline (baseConfig sim2) * (5 / 10)), sim2, rs3))"

text \<open>
  The third stage: the electrical parameters, the energy counter, the reading and the
  anomaly. The reading's \<open>timestamp\<close> is the time value that \<open>toISOString\<close> prints.
\<close>

definition generateMeterReading ::
  "Config \<Rightarrow> Simulator \<Rightarrow> Date \<Rightarrow> real stream \<Rightarrow> Reading \<times> Simulator \<times> real stream" where
  "generateMeterReading cfg sim tstamp rs =
     (let (totalActivePower, sim2, rs3) = noisyFlooredPower cfg sim tstamp rs;
          baseVoltage = baseVoltage (electrical cfg);
          voltageVariation = voltageVariation (electrical cfg) * (12 / 10);
          (r, rs4) = Math_random rs3;
          voltage = baseVoltage * (1 + (r - 5 / 10) * voltageVariation);
          global_reactive_power =
             totalActivePower * tan (arccos (powerFactor (electrical cfg))) / 1000;
          global_intensity = totalActivePower / voltage;
          energy_this_minute =
             (totalActivePower / 1000)
               * (real_of_int (sampleInterval (simulation cfg)) / 3600);
          sim3 = sim2\<lparr>this_energy_kwh := this_energy_kwh sim2 + energy_this_minute\<rparr>;
          readings =
             \<lparr>user_id = userId sim3,
              timestamp = getTime tstamp,
              voltage = toFixed 2 voltage,
              global_active_power = toFixed 4 (totalActivePower / 1000),
              global_reactive_power = toFixed 4 global_reactive_power,
              global_intensity = toFixed 4 global_intensity,
              energy_kwh = toFixed 4 (this_energy_kwh sim3),
              sample_interval_seconds = sampleInterval (simulation cfg),
              anomaly_type = None\<rparr>;
          (anomaly, sim4, rs5) = checkAnomalies cfg sim3 rs4
      in case anomaly of
           None \<Rightarrow> (readings, sim4, rs5)
         | Some a \<Rightarrow> ((applyAnomaly readings a)\<lparr>anomaly_type := Some (anom_type a)\<rparr>, sim4, rs5))"

subsection \<open>A batch of readings\<close>

text \<open>
  The loop of \<open>generateReadings\<close>, the first argument being the number of rounds still to
  run: \<open>count\<close> is a number of samples, a natural number.
\<close>

fun generateReadings ::
  "Config \<Rightarrow> nat \<Rightarrow> Simulator \<Rightarrow> Date \<Rightarrow> real stream \<Rightarrow> Reading list \<times> Simulator \<times> real stream"
  where
  "generateReadings cfg 0 sim currentTime rs = ([], sim, rs)"
| "generateReadings cfg (Suc n) sim currentTime rs =
     (let (reading, sim1, rs1) = generateMeterReading cfg sim currentTime rs;
          (rest, sim2, rs2) =
             generateReadings cfg n sim1
               (Date_plus currentTime (sampleInterval (simulation cfg) * 1000)) rs1
      in (reading # rest, sim2, rs2))"

section \<open>Auxiliary definitions for the properties\<close>

text \<open>
  The appliances \<open>generateProbabilisticLoad\<close> draws for, and the number of draws a tick
  makes before it draws the noise.
\<close>

definition eligible :: "string \<times> Appliance \<Rightarrow> bool" where
  "eligible =
     (\<lambda>(name, appliance).
        truthy (probability appliance) \<and> \<not> alwaysOn appliance \<and> \<not> truthy (cycle appliance))"

definition draws_before_noise :: "Config \<Rightarrow> Simulator \<Rightarrow> nat" where
  "draws_before_noise cfg sim =
     length (occasionalAppliances cfg)
       + length (filter eligible (appliances (baseConfig sim)))"

text \<open>
  The specification's rule for a cyclical load, in its own words: an appliance with a
  cycle contributes its power exactly when
  \<open>(minute mod cycle_length) / cycle_length < duty_cycle\<close>, and nothing otherwise.
\<close>

definition cyclical_contribution :: "Date \<Rightarrow> Appliance \<Rightarrow> real" where
  "cyclical_contribution date a =
     (case (cycle a, dutyCycle a) of
        (Some c, Some dc) \<Rightarrow>
          if real_of_int (getMinutes date mod c) / real_of_int c < dc then power a else 0
      | _ \<Rightarrow> 0)"

text \<open>
  Sample inputs: 2024-06-15T12:00:00Z read in Nepal time (a Saturday, 17:45) and
  2024-07-03T03:00:00Z read in UTC (a Wednesday).
\<close>

definition june15 :: Date where
  "june15 = \<lparr>getTime = 1718452800000, localTZA = 20700000\<rparr>"

definition july3 :: Date where
  "july3 = \<lparr>getTime = 1719975600000, localTZA = 0\<rparr>"

text \<open>
  2024-12-25T00:00:00Z, 2024-03-10T00:00:00Z and 2024-09-01T00:00:00Z, read in UTC.
\<close>

definition dec25 :: Date where
  "dec25 = \<lparr>getTime = 1735084800000, localTZA = 0\<rparr>"

definition mar10 :: Date where
  "mar10 = \<lparr>getTime = 1710028800000, localTZA = 0\<rparr>"

definition sep1 :: Date where
  "sep1 = \<lparr>getTime = 1725148800000, localTZA = 0\<rparr>"

definition june15_late :: Date where
  "june15_late = \<lparr>getTime = 1718453400000, localTZA = 20700000\<rparr>"

text \<open>Fresh simulators, as the constructor makes them for the configuration.\<close>

definition sim_normal :: Simulator where
  "sim_normal =
     \<lparr>userId = ''550e8400'', profile = ''normal'', baseConfig = profile_normal,
      this_energy_kwh = 0, activeAppliances = [], anomaly = None, anomalyRemaining = 0\<rparr>"

definition sim_vacation :: Simulator where
  "sim_vacation =
     \<lparr>userId = ''550e8400'', profile = ''vacation'', baseConfig = profile_vacation,
      this_energy_kwh = 0, activeAppliances = [], anomaly = None, anomalyRemaining = 0\<rparr>"

text \<open>
  A simulator whose microwave activation ends at the moment of the tick, and draws for
  which the microwave's and the water pump's start tests succeed.
\<close>

definition sim_busy :: Simulator where
  "sim_busy =
     sim_normal\<lparr>activeAppliances :=
       [(''microwave'', \<lparr>act_power = 1000, endTime = june15\<rparr>)]\<rparr>"

definition rs_start :: "real stream" where
  "rs_start =
     (1 / 1000) ## (1 / 2) ## (1 / 2) ## (1 / 2) ## (1 / 2) ## (1 / 2) ## (1 / 2) ## (1 / 2)
       ## (1 / 2) ## (1 / 100) ## sconst (1 / 2)"

text \<open>
  Draws for which the first tick of a normal-profile simulator starts no appliance, then
  activates an anomaly (the sixteenth draw) of the first kind (the seventeenth draw), and
  for which no later tick activates one.
\<close>

definition rs_surge :: "real stream" where
  "rs_surge = replicate 15 (1 / 2) @- ((1 / 1000) ## (1 / 10) ## sconst (1 / 2))"

text \<open>Two sources of draws agree on their first \<open>n\<close> draws.\<close>

definition agree :: "nat \<Rightarrow> real stream \<Rightarrow> real stream \<Rightarrow> bool" where
  "agree n rs rs' = (\<forall>i<n. rs !! i = rs' !! i)"

section \<open>The real-time power state and the forecast comparator\<close>

subsection \<open>Interactive state store and real-time power state\<close>

text \<open>
  Modelled from the spec: the Appliance Catalog, the Interactive State Store and the
  Real-Time Power State (sections 3, 4.2 and 4.3). Their code is not among the sources of
  the repository; the definitions follow the specification's contracts. The catalog maps
  an appliance identifier to its definition; a household has one state per appliance and
  one power state; the store maps a household identifier to its household.
\<close>

record ApplianceDefinition =
  appliance_name :: string
  rated_watts :: real
  category :: string

record ApplianceState =
  appliance_id :: string
  is_on :: bool
  last_toggled_at :: int

record PowerState =
  background_kw :: real
  interactive_kw :: real
  total_kw :: real
  updated_at :: int

record Household =
  appliance_states :: "ApplianceState list"
  power_state :: PowerState

type_synonym Catalog = "(string \<times> ApplianceDefinition) list"

type_synonym PowerStore = "string \<rightharpoonup> Household"

datatype store_error = NotFoundError | ValidationError

text \<open>
  \<open>interactive_kw\<close> "as the sum of rated watts of all on appliances (not an incremental
  add/subtract)", in kW.
\<close>

definition rated_watts_of :: "Catalog \<Rightarrow> string \<Rightarrow> real" where
  "rated_watts_of catalog aid =
     (case map_of catalog aid of None \<Rightarrow> 0 | Some d \<Rightarrow> rated_watts d)"

definition sum_interactive_kw :: "Catalog \<Rightarrow> ApplianceState list \<Rightarrow> real" where
  "sum_interactive_kw catalog states =
     (\<Sum>s \<leftarrow> filter is_on states. rated_watts_of catalog (appliance_id s)) / 1000"

text \<open>
  The two writers of the power state: each writes its component and recomputes
  \<open>total_kw\<close> in the same step.
\<close>

definition write_background :: "real \<Rightarrow> int \<Rightarrow> PowerState \<Rightarrow> PowerState" where
  "write_background bg now ps =
     ps\<lparr>background_kw := bg, total_kw := bg + interactive_kw ps, updated_at := now\<rparr>"

definition write_interactive :: "real \<Rightarrow> int \<Rightarrow> PowerState \<Rightarrow> PowerState" where
  "write_interactive ia now ps =
     ps\<lparr>interactive_kw := ia, total_kw := background_kw ps + ia, updated_at := now\<rparr>"

text \<open>
  \<open>initialize(household_id)\<close> "seeds one ApplianceState per catalog entry, off by
  default"; the household's power state starts at zero.
\<close>

definition initialize :: "Catalog \<Rightarrow> string \<Rightarrow> int \<Rightarrow> PowerStore \<Rightarrow> PowerStore" where
  "initialize catalog hid now store =
     store(hid \<mapsto>
       \<lparr>appliance_states =
          map (\<lambda>(aid, d). \<lparr>appliance_id = aid, is_on = False, last_toggled_at = now\<rparr>) catalog,
        power_state =
          \<lparr>background_kw = 0, interactive_kw = 0, total_kw = 0, updated_at = now\<rparr>\<rparr>)"

text \<open>
  \<open>toggle(household_id, appliance_id, is_on)\<close> "validates the appliance belongs to the
  household's catalog subset, fails with NotFound if unknown, applies the state change,
  recomputes interactive_kw ... and pushes the new value into Real-Time Power State". A
  rejected toggle changes no state.
\<close>

definition set_state :: "string \<Rightarrow> bool \<Rightarrow> int \<Rightarrow> ApplianceState \<Rightarrow> ApplianceState" where
  "set_state aid on now s =
     (if appliance_id s = aid then s\<lparr>is_on := on, last_toggled_at := now\<rparr> else s)"

definition toggle ::
  "Catalog \<Rightarrow> string \<Rightarrow> string \<Rightarrow> bool \<Rightarrow> int \<Rightarrow> PowerStore \<Rightarrow> store_error + PowerStore" where
  "toggle catalog hid aid on now store =
     (case store hid of
        None \<Rightarrow> Inl NotFoundError
      | Some h \<Rightarrow>
          if aid \<notin> appliance_id ` set (appliance_states h) then Inl NotFoundError
          else
            (let states = map (set_state aid on now) (appliance_states h);
                 ia = sum_interactive_kw catalog states
             in Inr (store(hid \<mapsto>
                  \<lparr>appliance_states = states,
                   power_state = write_interactive ia now (power_state h)\<rparr>))))"

text \<open>
  The simulator's tick for a household writes the background power it produced; a tick
  for an unknown household is rejected.
\<close>

definition tick_write ::
  "string \<Rightarrow> real \<Rightarrow> int \<Rightarrow> PowerStore \<Rightarrow> store_error + PowerStore" where
  "tick_write hid bg now store =
     (case store hid of
        None \<Rightarrow> Inl NotFoundError
      | Some h \<Rightarrow>
          Inr (store(hid \<mapsto> h\<lparr>power_state := write_background bg now (power_state h)\<rparr>)))"

text \<open>
  The events that mutate the power state, and a run of events in the order they are
  accepted. An event that is rejected leaves the store as it is.
\<close>

datatype event =
  Initialize string int
| Toggle string string bool int
| Tick string real int

fun apply_event :: "Catalog \<Rightarrow> event \<Rightarrow> PowerStore \<Rightarrow> store_error + PowerStore" where
  "apply_event catalog (Initialize hid now) store = Inr (initialize catalog hid now store)"
| "apply_event catalog (Toggle hid aid on now) store = toggle catalog hid aid on now store"
| "apply_event catalog (Tick hid bg now) store = tick_write hid bg now store"

fun run_events :: "Catalog \<Rightarrow> event list \<Rightarrow> PowerStore \<Rightarrow> PowerStore" where
  "run_events catalog [] store = store"
| "run_events catalog (e # es) store =
     (case apply_event catalog e store of
        Inl err \<Rightarrow> run_events catalog es store
      | Inr store' \<Rightarrow> run_events catalog es store')"

text \<open>The invariant of section 3, for every household of the store.\<close>

definition power_invariant :: "Catalog \<Rightarrow> PowerStore \<Rightarrow> bool" where
  "power_invariant catalog store =
     (\<forall>hid h. store hid = Some h \<longrightarrow>
        total_kw (power_state h)
          = background_kw (power_state h) + interactive_kw (power_state h) \<and>
        interactive_kw (power_state h)
          = sum_interactive_kw catalog (appliance_states h))"

definition sample_catalog :: Catalog where
  "sample_catalog =
     [(''tv'', \<lparr>appliance_name = ''LED TV'', rated_watts = 150, category = ''living_room''\<rparr>),
      (''microwave'',
         \<lparr>appliance_name = ''Microwave'', rated_watts = 1000, category = ''kitchen''\<rparr>)]"

definition sample_events :: "event list" where
  "sample_events =
     [Initialize ''h1'' 0, Tick ''h1'' (1 / 2) 1, Toggle ''h1'' ''tv'' True 2,
      Toggle ''h1'' ''tv'' True 3, Toggle ''h1'' ''oven'' True 4,
      Toggle ''h1'' ''microwave'' True 5, Tick ''h1'' (3 / 4) 6,
      Toggle ''h1'' ''tv'' False 7]"

subsection \<open>Forecast comparator\<close>













section \<open>Properties\<close>

subsection \<open>Dates\<close>

lemmas date_defs = getMonth_def getDay_def getHours_def getMinutes_def LocalTime_def
  MonthFromTime_def MonthOfDay_def DayOfYear_def YearOfEra_def WeekDay_def HourFromTime_def
  MinFromTime_def Day_def msPerDay_def

lemma getMinutes_range: "0 \<le> getMinutes d \<and> getMinutes d < 60"
  by (simp add: getMinutes_def MinFromTime_def)

lemma getHours_range: "0 \<le> getHours d \<and> getHours d < 24"
  by (simp add: getHours_def HourFromTime_def)

text \<open>
  The tables of time-of-day multipliers of the configuration hold one entry for each hour,
  so \<open>getTimePatternMultiplier\<close> reads them in range.
\<close>

lemma config_time_patterns:
  "length (weekday (timePatterns config)) = 24"
  "length (weekend (timePatterns config)) = 24"
  by (simp_all add: config_def)

lemma getHours_index: "nat (getHours d) < 24"
  using getHours_range [of d] by linarith

lemma june15_fields:
  "getMonth june15 = 5" "getDay june15 = 6" "getHours june15 = 17" "getMinutes june15 = 45"
  by (simp_all add: june15_def date_defs)

lemma july3_fields:
  "getMonth july3 = 6" "getDay july3 = 3" "getHours july3 = 3" "getMinutes july3 = 0"
  by (simp_all add: july3_def date_defs)

subsection \<open>The seasonal multiplier\<close>

lemma season_dates:
  "getMonth dec25 = 11" "getMonth mar10 = 2" "getMonth sep1 = 8"
  by (simp_all add: dec25_def mar10_def sep1_def date_defs)

text \<open>
  C6. The seasonal multiplier is selected from the calendar month of the timestamp alone,
  through a table of four seasons: the configured spring multiplier for the month indices
  1 to 3, the summer multiplier for 4 to 6 (May to July, the peak cooling season), the
  monsoon multiplier for 7 to 9, and the winter multiplier for the others (10, 11 and 0).
  So every timestamp in the months 4 to 6 gets the summer multiplier, whatever its day of
  the week and hour, and two timestamps of the same month get the same multiplier.
\<close>

theorem seasonal_multiplier_by_month:
  "getSeasonalMultiplier cfg date =
     (if getMonth date \<in> {1, 2, 3} then spring (seasonalMultipliers cfg)
      else if getMonth date \<in> {4, 5, 6} then summer (seasonalMultipliers cfg)
      else if getMonth date \<in> {7, 8, 9} then monsoon (seasonalMultipliers cfg)
      else winter (seasonalMultipliers cfg)) \<and>
   (getMonth date \<in> {0, 10, 11} \<longrightarrow>
      getSeasonalMultiplier cfg date = winter (seasonalMultipliers cfg)) \<and>
   (4 \<le> getMonth date \<and> getMonth date \<le> 6 \<longrightarrow>
      getSeasonalMultiplier cfg date = summer (seasonalMultipliers cfg)) \<and>
   (getMonth date = getMonth date' \<longrightarrow>
      getSeasonalMultiplier cfg date = getSeasonalMultiplier cfg date')"
proof -
  have table: "getSeasonalMultiplier cfg d =
     (if getMonth d \<in> {1, 2, 3} then spring (seasonalMultipliers cfg)
      else if getMonth d \<in> {4, 5, 6} then summer (seasonalMultipliers cfg)
      else if getMonth d \<in> {7, 8, 9} then monsoon (seasonalMultipliers cfg)
      else winter (seasonalMultipliers cfg))" for d
  proof -
    have "(1 \<le> getMonth d \<and> getMonth d \<le> 3) = (getMonth d \<in> {1, 2, 3})"
      "(4 \<le> getMonth d \<and> getMonth d \<le> 6) = (getMonth d \<in> {4, 5, 6})"
      "(7 \<le> getMonth d \<and> getMonth d \<le> 9) = (getMonth d \<in> {7, 8, 9})"
      by auto
    then show ?thesis by (simp add: getSeasonalMultiplier_def Let_def)
  qed
  have winter: "getMonth date \<in> {0, 10, 11} \<longrightarrow>
      getSeasonalMultiplier cfg date = winter (seasonalMultipliers cfg)"
    unfolding table [of date] by auto
  have summer: "4 \<le> getMonth date \<and> getMonth date \<le> 6 \<longrightarrow>
      getSeasonalMultiplier cfg date = summer (seasonalMultipliers cfg)"
    unfolding table [of date] by auto
  have same: "getMonth date = getMonth date' \<longrightarrow>
      getSeasonalMultiplier cfg date = getSeasonalMultiplier cfg date'"
    unfolding table [of date] table [of date'] by simp
  show ?thesis using table [of date] winter summer same by blast
qed

theorem seasonal_multiplier_by_month_witness:
  "getMonth june15 = 5 \<and> getDay june15 = 6 \<and> getHours june15 = 17 \<and>
   getMonth july3 = 6 \<and> getDay july3 = 3 \<and> getHours july3 = 3 \<and>
   getSeasonalMultiplier config june15 = 13 / 10 \<and>
   getSeasonalMultiplier config july3 = 13 / 10 \<and>
   getSeasonalMultiplier config dec25 = 14 / 10 \<and>
   getSeasonalMultiplier config mar10 = 1 \<and>
   getSeasonalMultiplier config sep1 = 11 / 10"
proof -
  have s: "seasonalMultipliers config =
     \<lparr>spring = 1, summer = 13 / 10, monsoon = 11 / 10, winter = 14 / 10\<rparr>"
    by (simp add: config_def)
  have "getSeasonalMultiplier config june15 = 13 / 10"
    using seasonal_multiplier_by_month [of config june15 june15]
    by (simp add: june15_fields s)
  moreover have "getSeasonalMultiplier config july3 = 13 / 10"
    using seasonal_multiplier_by_month [of config july3 july3]
    by (simp add: july3_fields s)
  moreover have "getSeasonalMultiplier config dec25 = 14 / 10"
    using seasonal_multiplier_by_month [of config dec25 dec25]
    by (simp add: season_dates s)
  moreover have "getSeasonalMultiplier config mar10 = 1"
    using seasonal_multiplier_by_month [of config mar10 mar10]
    by (simp add: season_dates s)
  moreover have "getSeasonalMultiplier config sep1 = 11 / 10"
    using seasonal_multiplier_by_month [of config sep1 sep1]
    by (simp add: season_dates s)
  ultimately show ?thesis using june15_fields july3_fields by simp
qed

subsection \<open>The cyclical load\<close>

lemma smod_nonneg_pos: "0 \<le> (a::int) \<Longrightarrow> 0 < b \<Longrightarrow> a smod b = a mod b"
  by (simp add: smod_int_alt_def sgn_if)

lemma cyclical_step_contribution:
  assumes "\<And>c. cycle a = Some c \<Longrightarrow> 0 < c"
  shows "cyclical_step date (n, a) acc = acc + cyclical_contribution date a"
  using assms getMinutes_range[of date]
  by (auto simp add: cyclical_step_def cyclical_contribution_def truthy_def smod_nonneg_pos
      split: option.splits)

lemma cyclical_fold:
  assumes "\<forall>(n, a) \<in> set xs. \<forall>c. cycle a = Some c \<longrightarrow> 0 < c"
  shows "fold (cyclical_step date) xs acc
           = acc + (\<Sum>(n, a) \<leftarrow> xs. cyclical_contribution date a)"
  using assms
proof (induction xs arbitrary: acc)
  case Nil
  then show ?case by simp
next
  case (Cons x xs)
  obtain n a where x: "x = (n, a)" by (cases x)
  have pos: "\<And>c. cycle a = Some c \<Longrightarrow> 0 < c" using Cons.prems x by auto
  have rest: "\<forall>(n, a) \<in> set xs. \<forall>c. cycle a = Some c \<longrightarrow> 0 < c" using Cons.prems by auto
  show ?case
    by (simp add: x Cons.IH[OF rest] cyclical_step_contribution[OF pos])
qed

lemma june15_late_fields:
  "getMonth june15_late = 5" "getDay june15_late = 6" "getHours june15_late = 17"
  "getMinutes june15_late = 55"
  by (simp_all add: june15_late_def date_defs)

lemma new_Simulator_config:
  "new_Simulator config ''550e8400'' ''normal'' = Some sim_normal"
  "new_Simulator config ''550e8400'' ''vacation'' = Some sim_vacation"
  "new_Simulator config ''550e8400'' ''unknown'' = Some (sim_normal\<lparr>profile := ''unknown''\<rparr>)"
  "new_Simulator config ''550e8400'' ''toString'' = None"
  by (simp_all add: new_Simulator_def config_def sim_normal_def sim_vacation_def
      Object_prototype_names_def)

text \<open>
  C7. Where every configured cycle length is positive, the cyclical load of a tick is the
  sum, over the appliances of the profile, of what the specification's rule gives: the
  appliance's power if it has a cycle and
  \<open>(minute mod cycle_length) / cycle_length < duty_cycle\<close> at the minute of the tick's
  timestamp, and nothing otherwise.
\<close>

theorem cyclical_load_duty_cycle:
  assumes "\<forall>(n, a) \<in> set (appliances (baseConfig sim)). \<forall>c. cycle a = Some c \<longrightarrow> 0 < c"
  shows "generateCyclicalLoad sim date =
           (\<Sum>(n, a) \<leftarrow> appliances (baseConfig sim). cyclical_contribution date a)"
  using cyclical_fold[OF assms, of date 0] by (simp add: generateCyclicalLoad_def)

theorem cyclical_load_duty_cycle_witness:
  "generateCyclicalLoad sim_normal june15 = 120 \<and>
   generateCyclicalLoad sim_normal june15_late = 0"
proof -
  have pos: "\<forall>(n, a) \<in> set (appliances (baseConfig sim_normal)).
               \<forall>c. cycle a = Some c \<longrightarrow> 0 < c"
    by (simp add: sim_normal_def profile_normal_def cyclic_def probabilistic_def always_on_def)
  show ?thesis
    using cyclical_load_duty_cycle [OF pos, of june15]
      cyclical_load_duty_cycle [OF pos, of june15_late]
    by (simp add: sim_normal_def profile_normal_def cyclic_def probabilistic_def always_on_def
        cyclical_contribution_def june15_fields june15_late_fields)
qed

subsection \<open>What a tick changes, and how many draws it makes\<close>

lemma fold_occasional_stream:
  "snd (fold (occasional_step d tm) xs (act, rs)) = sdrop (length xs) rs"
  by (induction xs arbitrary: act rs)
     (simp_all add: occasional_step_def Math_random_def split_beta Let_def)

lemma fold_probabilistic_stream:
  "snd (fold (probabilistic_step tm) xs (l, rs)) = sdrop (length (filter eligible xs)) rs"
  by (induction xs arbitrary: l rs)
     (simp_all add: probabilistic_step_def eligible_def Math_random_def split_beta Let_def)

lemma startOccasionalAppliances_frame:
  "fst (startOccasionalAppliances cfg sim d tm rs) =
     sim\<lparr>activeAppliances :=
            fst (fold (occasional_step d tm) (occasionalAppliances cfg)
                   (activeAppliances sim, rs))\<rparr>"
  "snd (startOccasionalAppliances cfg sim d tm rs) =
     sdrop (length (occasionalAppliances cfg)) rs"
  by (simp_all add: startOccasionalAppliances_def split_beta fold_occasional_stream)

lemma updateActiveAppliances_frame:
  "snd (updateActiveAppliances sim d) =
     sim\<lparr>activeAppliances :=
            snd (fold (update_step d) (activeAppliances sim) (0, activeAppliances sim))\<rparr>"
  by (simp add: updateActiveAppliances_def split_beta)

lemma combineLoads_frame:
  "baseConfig (fst (snd (combineLoads cfg sim t rs))) = baseConfig sim"
  "this_energy_kwh (fst (snd (combineLoads cfg sim t rs))) = this_energy_kwh sim"
  "userId (fst (snd (combineLoads cfg sim t rs))) = userId sim"
  "profile (fst (snd (combineLoads cfg sim t rs))) = profile sim"
  "anomaly (fst (snd (combineLoads cfg sim t rs))) = anomaly sim"
  "anomalyRemaining (fst (snd (combineLoads cfg sim t rs))) = anomalyRemaining sim"
  "snd (snd (combineLoads cfg sim t rs)) = sdrop (draws_before_noise cfg sim) rs"
  by (simp_all add: combineLoads_def split_beta Let_def updateActiveAppliances_frame
      startOccasionalAppliances_frame generateProbabilisticLoad_def fold_probabilistic_stream
      draws_before_noise_def)

lemma noisyFlooredPower_frame:
  "baseConfig (fst (snd (noisyFlooredPower cfg sim t rs))) = baseConfig sim"
  "this_energy_kwh (fst (snd (noisyFlooredPower cfg sim t rs))) = this_energy_kwh sim"
  "userId (fst (snd (noisyFlooredPower cfg sim t rs))) = userId sim"
  "profile (fst (snd (noisyFlooredPower cfg sim t rs))) = profile sim"
  "anomaly (fst (snd (noisyFlooredPower cfg sim t rs))) = anomaly sim"
  "anomalyRemaining (fst (snd (noisyFlooredPower cfg sim t rs))) = anomalyRemaining sim"
  "snd (snd (noisyFlooredPower cfg sim t rs)) = sdrop (Suc (draws_before_noise cfg sim)) rs"
  by (simp_all add: noisyFlooredPower_def split_beta Let_def combineLoads_frame Math_random_def)

lemma checkAnomalies_frame:
  "baseConfig (fst (snd (checkAnomalies cfg sim rs))) = baseConfig sim"
  "this_energy_kwh (fst (snd (checkAnomalies cfg sim rs))) = this_energy_kwh sim"
  "userId (fst (snd (checkAnomalies cfg sim rs))) = userId sim"
  "profile (fst (snd (checkAnomalies cfg sim rs))) = profile sim"
  "activeAppliances (fst (snd (checkAnomalies cfg sim rs))) = activeAppliances sim"
  by (simp_all add: checkAnomalies_def split_beta Let_def)

lemma applyAnomaly_frame:
  "timestamp (applyAnomaly r a) = timestamp r"
  "energy_kwh (applyAnomaly r a) = energy_kwh r"
  "user_id (applyAnomaly r a) = user_id r"
  by (simp_all add: applyAnomaly_def Let_def split: option.splits)

lemma generateMeterReading_timestamp:
  "timestamp (fst (generateMeterReading cfg sim t rs)) = getTime t"
  by (simp add: generateMeterReading_def split_beta Let_def applyAnomaly_frame
      split: option.splits)

lemma generateMeterReading_energy:
  "this_energy_kwh (fst (snd (generateMeterReading cfg sim t rs))) =
     this_energy_kwh sim + fst (noisyFlooredPower cfg sim t rs) / 1000
        * (real_of_int (sampleInterval (simulation cfg)) / 3600)"
  "energy_kwh (fst (generateMeterReading cfg sim t rs)) =
     toFixed 4 (this_energy_kwh (fst (snd (generateMeterReading cfg sim t rs))))"
  "baseConfig (fst (snd (generateMeterReading cfg sim t rs))) = baseConfig sim"
  by (simp_all add: generateMeterReading_def split_beta Let_def applyAnomaly_frame
       checkAnomalies_frame noisyFlooredPower_frame split: option.splits)

lemma valid_random_sdrop: "valid_random rs \<Longrightarrow> valid_random (sdrop n rs)"
  by (simp add: valid_random_def sdrop_snth)

lemma valid_random_shd: "valid_random rs \<Longrightarrow> 0 \<le> shd rs \<and> shd rs < 1"
  unfolding valid_random_def by (metis snth.simps(1))

subsection \<open>Batches of readings\<close>

lemma generateReadings_length:
  "length (fst (generateReadings cfg count sim startTime rs)) = count"
  by (induction count arbitrary: sim startTime rs) (simp_all add: split_beta Let_def)

lemma generateReadings_nth:
  "i < count \<Longrightarrow>
   timestamp (fst (generateReadings cfg count sim startTime rs) ! i) =
     getTime startTime + int i * (sampleInterval (simulation cfg) * 1000)"
proof (induction count arbitrary: i sim startTime rs)
  case 0
  then show ?case by simp
next
  case (Suc count)
  show ?case
  proof (cases i)
    case 0
    then show ?thesis
      by (simp add: split_beta Let_def generateMeterReading_timestamp)
  next
    case (Suc j)
    then have "j < count" using Suc.prems by simp
    from Suc.IH[OF this] show ?thesis
      by (simp add: Suc split_beta Let_def Date_plus_def algebra_simps)
  qed
qed

text \<open>
  C9. \<open>generateReadings(count, startTime)\<close> returns exactly \<open>count\<close> readings; the
  \<open>i\<close>-th is generated for the timestamp \<open>startTime + i * sampleInterval\<close> seconds
  (time values are in milliseconds); so, the sample interval being positive, the
  timestamps are strictly increasing, each two neighbours one sample interval apart.
\<close>

theorem generateReadings_timestamps:
  "length (fst (generateReadings cfg count sim startTime rs)) = count \<and>
   (\<forall>i<count.
      timestamp (fst (generateReadings cfg count sim startTime rs) ! i) =
        getTime startTime + int i * (sampleInterval (simulation cfg) * 1000)) \<and>
   (0 < sampleInterval (simulation cfg) \<longrightarrow>
      sorted_wrt (<) (map timestamp (fst (generateReadings cfg count sim startTime rs)))) \<and>
   (\<forall>i. Suc i < count \<longrightarrow>
      timestamp (fst (generateReadings cfg count sim startTime rs) ! Suc i)
        - timestamp (fst (generateReadings cfg count sim startTime rs) ! i) =
        sampleInterval (simulation cfg) * 1000)"
proof -
  let ?rs = "fst (generateReadings cfg count sim startTime rs)"
  have len: "length ?rs = count" by (rule generateReadings_length)
  have nth: "\<forall>i<count. timestamp (?rs ! i) =
        getTime startTime + int i * (sampleInterval (simulation cfg) * 1000)"
    by (simp add: generateReadings_nth)
  have inc: "sorted_wrt (<) (map timestamp ?rs)" if pos: "0 < sampleInterval (simulation cfg)"
  proof -
    have "timestamp (?rs ! i) < timestamp (?rs ! j)" if "i < j" "j < count" for i j
    proof -
      have "int i * (sampleInterval (simulation cfg) * 1000)
              < int j * (sampleInterval (simulation cfg) * 1000)"
        using that pos by simp
      then show ?thesis using that nth by simp
    qed
    then show ?thesis by (simp add: sorted_wrt_iff_nth_less len)
  qed
  have gap: "\<forall>i. Suc i < count \<longrightarrow> timestamp (?rs ! Suc i) - timestamp (?rs ! i) =
        sampleInterval (simulation cfg) * 1000"
    using nth by (simp add: algebra_simps)
  show ?thesis using len nth inc gap by blast
qed

theorem generateReadings_timestamps_witness:
  "length (fst (generateReadings config 3 sim_normal june15 (sconst (1 / 2)))) = 3 \<and>
   timestamp (fst (generateReadings config 3 sim_normal june15 (sconst (1 / 2))) ! 0)
     = 1718452800000 \<and>
   timestamp (fst (generateReadings config 3 sim_normal june15 (sconst (1 / 2))) ! 1)
     = 1718452860000 \<and>
   timestamp (fst (generateReadings config 3 sim_normal june15 (sconst (1 / 2))) ! 2)
     = 1718452920000 \<and>
   sorted_wrt (<)
     (map timestamp (fst (generateReadings config 3 sim_normal june15 (sconst (1 / 2)))))"
proof -
  let ?rs = "fst (generateReadings config 3 sim_normal june15 (sconst (1 / 2)))"
  have si: "sampleInterval (simulation config) = 60" by (simp add: config_def)
  have t: "getTime june15 = 1718452800000" by (simp add: june15_def)
  note th = generateReadings_timestamps [of config 3 sim_normal june15 "sconst (1 / 2)"]
  have nth: "\<And>i. i < 3 \<Longrightarrow> timestamp (?rs ! i) = 1718452800000 + int i * 60000"
    using th si t by simp
  have "timestamp (?rs ! 0) = 1718452800000" using nth [of 0] by simp
  moreover have "timestamp (?rs ! 1) = 1718452860000" using nth [of 1] by simp
  moreover have "timestamp (?rs ! 2) = 1718452920000" using nth [of 2] by simp
  moreover have "length ?rs = 3" using th by blast
  moreover have "sorted_wrt (<) (map timestamp ?rs)" using th si by simp
  ultimately show ?thesis by blast
qed

subsection \<open>A tick evaluated: the normal profile on 2024-06-15, every draw being 1/2\<close>

lemma valid_random_sconst: "0 \<le> x \<Longrightarrow> x < 1 \<Longrightarrow> valid_random (sconst x)"
  by (simp add: valid_random_def)

lemma config_fields:
  "occasionalAppliances config =
     [(''microwave'', occasional 1000 5 (15 / 1000)),
      (''oven'', occasional 2000 30 (5 / 1000)),
      (''dishwasher'', occasional 1500 90 (2 / 1000)),
      (''washing_machine'', occasional 400 60 (1 / 100)),
      (''dryer'', occasional 2500 45 (1 / 1000)),
      (''air_conditioner'', occasional 1200 20 (2 / 100)),
      (''space_heater'', occasional 1200 30 (3 / 100)),
      (''water_heater'', occasional 3000 15 (2 / 100)),
      (''electric_vehicle'', occasional 5000 180 (1 / 1000)),
      (''water_pump'', occasional 750 10 (5 / 100))]"
  "seasonalMultipliers config =
     \<lparr>spring = 1, summer = 13 / 10, monsoon = 11 / 10, winter = 14 / 10\<rparr>"
  "sampleInterval (simulation config) = 60"
  "anomaly_probability (anomalies config) = 15 / 10000"
  "baseVoltage (electrical config) = 230"
  "voltageVariation (electrical config) = 8 / 100"
  by (simp_all add: config_def)

lemma timePattern_june15: "getTimePatternMultiplier config june15 = 1"
  by (simp add: getTimePatternMultiplier_def june15_fields config_def)

lemma seasonal_june15: "getSeasonalMultiplier config june15 = 13 / 10"
  by (simp add: getSeasonalMultiplier_def june15_fields config_fields)

lemma occasional_step_no_start:
  "occ_probability a * 12 \<le> 1 \<Longrightarrow> 0 \<le> occ_probability a \<Longrightarrow>
   occasional_step june15 1 (n, a) (act, sconst (1 / 2)) = (act, sconst (1 / 2))"
  by (simp add: occasional_step_def june15_fields Math_random_def Let_def)

lemma startOccasional_june15:
  "startOccasionalAppliances config sim_normal june15 1 (sconst (1 / 2))
     = (sim_normal, sconst (1 / 2))"
  by (simp add: startOccasionalAppliances_def config_fields occasional_def
      occasional_step_no_start sim_normal_def)

lemma baseLoad_normal: "generateBaseLoad sim_normal = 126"
  by (simp add: generateBaseLoad_def base_step_def sim_normal_def profile_normal_def
      cyclic_def probabilistic_def always_on_def)

lemma probabilisticLoad_june15:
  "generateProbabilisticLoad sim_normal june15 1 (sconst (1 / 2)) = (20, sconst (1 / 2))"
  by (simp add: generateProbabilisticLoad_def probabilistic_step_def sim_normal_def
      profile_normal_def cyclic_def probabilistic_def always_on_def truthy_def Math_random_def)

lemma updateActive_june15: "updateActiveAppliances sim_normal june15 = (0, sim_normal)"
  by (simp add: updateActiveAppliances_def sim_normal_def)

lemma cyclicalLoad_june15: "generateCyclicalLoad sim_normal june15 = 120"
  by (simp add: generateCyclicalLoad_def cyclical_step_def sim_normal_def profile_normal_def
      cyclic_def probabilistic_def always_on_def truthy_def june15_fields)

lemma combineLoads_june15:
  "combineLoads config sim_normal june15 (sconst (1 / 2))
     = (3458 / 10, sim_normal, sconst (1 / 2))"
  by (simp add: combineLoads_def timePattern_june15 seasonal_june15 startOccasional_june15
      baseLoad_normal cyclicalLoad_june15 probabilisticLoad_june15 updateActive_june15)

lemma baseline_normal: "baseline (baseConfig sim_normal) = 120"
  by (simp add: sim_normal_def profile_normal_def)

lemma noisyFlooredPower_june15:
  "noisyFlooredPower config sim_normal june15 (sconst (1 / 2))
     = (3458 / 10, sim_normal, sconst (1 / 2))"
  by (simp add: noisyFlooredPower_def combineLoads_june15 Math_random_def baseline_normal)

subsection \<open>Noise and the minimum power\<close>

text \<open>
  C4. In every tick the combined load (base, cyclical, probabilistic and occasional loads
  times the seasonal and the time-of-day multiplier) is multiplied by a noise factor
  \<open>1 + (r - 0.5) * 0.1\<close>, which lies within 5 percent of 1 for a draw \<open>r\<close> in \<open>[0, 1)\<close>,
  and the product is floored at 0.5 times the profile's baseline: the power the tick
  computes is never below half the baseline. A reading without an anomaly reports that
  power in kW, rounded to four decimals.
\<close>

theorem noise_bounded_and_power_floored:
  assumes "valid_random rs"
  shows "(let (combined, sim2, rs2) = combineLoads cfg sim tstamp rs;
              noise = 1 + (shd rs2 - 5 / 10) * (1 / 10);
              P = fst (noisyFlooredPower cfg sim tstamp rs)
          in \<bar>noise - 1\<bar> \<le> 5 / 100 \<and>
             P = max (combined * noise) (baseline (baseConfig sim) * (5 / 10)) \<and>
             baseline (baseConfig sim) * (5 / 10) \<le> P \<and>
             (anomaly_type (fst (generateMeterReading cfg sim tstamp rs)) = None \<longrightarrow>
                global_active_power (fst (generateMeterReading cfg sim tstamp rs))
                  = toFixed 4 (P / 1000)))"
proof -
  obtain combined sim2 rs2 where c: "combineLoads cfg sim tstamp rs = (combined, sim2, rs2)"
    by (cases "combineLoads cfg sim tstamp rs") auto
  have rs2: "rs2 = sdrop (draws_before_noise cfg sim) rs"
    using combineLoads_frame(7) [of cfg sim tstamp rs] c by simp
  have bc: "baseConfig sim2 = baseConfig sim"
    using combineLoads_frame(1) [of cfg sim tstamp rs] c by simp
  have r: "0 \<le> shd rs2 \<and> shd rs2 < 1"
    using assms rs2 valid_random_sdrop valid_random_shd by blast
  let ?noise = "1 + (shd rs2 - 5 / 10) * (1 / 10)"
  have n: "\<bar>?noise - 1\<bar> \<le> 5 / 100" using r unfolding abs_le_iff by auto
  have P: "fst (noisyFlooredPower cfg sim tstamp rs)
             = max (combined * ?noise) (baseline (baseConfig sim) * (5 / 10))"
    by (simp add: noisyFlooredPower_def c bc Math_random_def Let_def)
  have fl: "baseline (baseConfig sim) * (5 / 10) \<le> fst (noisyFlooredPower cfg sim tstamp rs)"
    unfolding P by simp
  have rd: "anomaly_type (fst (generateMeterReading cfg sim tstamp rs)) = None \<longrightarrow>
      global_active_power (fst (generateMeterReading cfg sim tstamp rs))
        = toFixed 4 (fst (noisyFlooredPower cfg sim tstamp rs) / 1000)"
    by (simp add: generateMeterReading_def split_beta Let_def split: option.splits)
  show ?thesis
    using n P fl rd by (simp add: c Let_def)
qed

theorem noise_bounded_and_power_floored_witness:
  "fst (noisyFlooredPower config sim_normal june15 (sconst (1 / 2))) = 3458 / 10 \<and>
   baseline (baseConfig sim_normal) * (5 / 10)
     \<le> fst (noisyFlooredPower config sim_normal june15 (sconst (1 / 2)))"
proof -
  have v: "valid_random (sconst (1 / 2))" by (simp add: valid_random_sconst)
  show ?thesis
    using noise_bounded_and_power_floored [OF v, of config sim_normal june15]
    by (simp add: combineLoads_june15 baseline_normal Let_def)
qed

subsection \<open>The energy counter\<close>

lemma toFixed4_bounds: "toFixed 4 x \<le> x + 1 / 20000 \<and> x - 1 / 20000 \<le> toFixed 4 x"
proof (cases "x < 0")
  case False
  let ?y = "x * 10000 + 1 / 2"
  have a: "of_int \<lfloor>?y\<rfloor> \<le> ?y" by (rule of_int_floor_le)
  have b: "?y < of_int \<lfloor>?y\<rfloor> + 1" by linarith
  have t: "toFixed 4 x = of_int \<lfloor>?y\<rfloor> / 10000" using False by (simp add: toFixed_def)
  show ?thesis unfolding t using a b by linarith
next
  case True
  let ?y = "- x * 10000 + 1 / 2"
  have a: "of_int \<lfloor>?y\<rfloor> \<le> ?y" by (rule of_int_floor_le)
  have b: "?y < of_int \<lfloor>?y\<rfloor> + 1" by linarith
  have t: "toFixed 4 x = - (of_int \<lfloor>?y\<rfloor> / 10000)" using True by (simp add: toFixed_def)
  show ?thesis unfolding t using a b by linarith
qed

lemma toFixed4_strict_mono: "x + 1 / 10000 < y \<Longrightarrow> toFixed 4 x < toFixed 4 y"
  using toFixed4_bounds [of x] toFixed4_bounds [of y] by linarith

lemma noisyFlooredPower_floor:
  "baseline (baseConfig sim) * (5 / 10) \<le> fst (noisyFlooredPower cfg sim t rs)"
  by (simp add: noisyFlooredPower_def split_beta Let_def combineLoads_frame)

lemma noisyFlooredPower_anomaly_independent:
  "fst (noisyFlooredPower cfg (sim\<lparr>anomaly := a, anomalyRemaining := k\<rparr>) t rs)
     = fst (noisyFlooredPower cfg sim t rs)"
  by (simp add: noisyFlooredPower_def combineLoads_def startOccasionalAppliances_def
      updateActiveAppliances_def generateBaseLoad_def generateCyclicalLoad_def
      generateProbabilisticLoad_def split_beta Let_def)

lemma energy_step_bound:
  assumes si: "0 < sampleInterval (simulation cfg)"
    and inc: "1 / 10000 < baseline (baseConfig sim) * (5 / 10) / 1000
                * (real_of_int (sampleInterval (simulation cfg)) / 3600)"
  shows "1 / 10000 < fst (noisyFlooredPower cfg sim t rs) / 1000
            * (real_of_int (sampleInterval (simulation cfg)) / 3600)"
proof -
  have p: "0 < real_of_int (sampleInterval (simulation cfg)) / 3600" using si by simp
  have "baseline (baseConfig sim) * (5 / 10) / 1000
          \<le> fst (noisyFlooredPower cfg sim t rs) / 1000"
    using noisyFlooredPower_floor [of sim cfg t rs] by simp
  then have "baseline (baseConfig sim) * (5 / 10) / 1000
               * (real_of_int (sampleInterval (simulation cfg)) / 3600)
          \<le> fst (noisyFlooredPower cfg sim t rs) / 1000
               * (real_of_int (sampleInterval (simulation cfg)) / 3600)"
    using p by (rule mult_right_mono [OF _ less_imp_le])
  then show ?thesis using inc by linarith
qed

lemma generateMeterReading_energy_increases:
  assumes si: "0 < sampleInterval (simulation cfg)"
    and inc: "1 / 10000 < baseline (baseConfig sim) * (5 / 10) / 1000
                * (real_of_int (sampleInterval (simulation cfg)) / 3600)"
  shows "toFixed 4 (this_energy_kwh sim) < energy_kwh (fst (generateMeterReading cfg sim t rs))"
  using energy_step_bound [OF si inc, of t rs]
  by (simp add: generateMeterReading_energy toFixed4_strict_mono)

lemma generateReadings_energy_above:
  assumes si: "0 < sampleInterval (simulation cfg)"
    and inc: "1 / 10000 < baseline (baseConfig sim) * (5 / 10) / 1000
                * (real_of_int (sampleInterval (simulation cfg)) / 3600)"
  shows "\<forall>r \<in> set (fst (generateReadings cfg n sim t rs)).
           toFixed 4 (this_energy_kwh sim) < energy_kwh r"
  using inc
proof (induction n arbitrary: sim t rs)
  case 0
  then show ?case by simp
next
  case (Suc n)
  obtain r sim1 rs1 where g: "generateMeterReading cfg sim t rs = (r, sim1, rs1)"
    by (cases "generateMeterReading cfg sim t rs") auto
  have bc: "baseConfig sim1 = baseConfig sim"
    using generateMeterReading_energy(3) [of cfg sim t rs] g by simp
  have e: "energy_kwh r = toFixed 4 (this_energy_kwh sim1)"
    using generateMeterReading_energy(2) [of cfg sim t rs] g by simp
  have first: "toFixed 4 (this_energy_kwh sim) < energy_kwh r"
    using generateMeterReading_energy_increases [OF si Suc.prems, of t rs] g by simp
  have rest: "\<forall>r' \<in> set (fst (generateReadings cfg n sim1
                 (Date_plus t (sampleInterval (simulation cfg) * 1000)) rs1)).
               toFixed 4 (this_energy_kwh sim1) < energy_kwh r'"
    using Suc.IH [of sim1] Suc.prems bc by simp
  show ?case using first rest e by (auto simp add: g split_beta Let_def)
qed

lemma generateReadings_energy_sorted:
  assumes si: "0 < sampleInterval (simulation cfg)"
    and inc: "1 / 10000 < baseline (baseConfig sim) * (5 / 10) / 1000
                * (real_of_int (sampleInterval (simulation cfg)) / 3600)"
  shows "sorted_wrt (<) (map energy_kwh (fst (generateReadings cfg n sim t rs)))"
  using inc
proof (induction n arbitrary: sim t rs)
  case 0
  then show ?case by simp
next
  case (Suc n)
  obtain r sim1 rs1 where g: "generateMeterReading cfg sim t rs = (r, sim1, rs1)"
    by (cases "generateMeterReading cfg sim t rs") auto
  have bc: "baseConfig sim1 = baseConfig sim"
    using generateMeterReading_energy(3) [of cfg sim t rs] g by simp
  have e: "energy_kwh r = toFixed 4 (this_energy_kwh sim1)"
    using generateMeterReading_energy(2) [of cfg sim t rs] g by simp
  have inc1: "1 / 10000 < baseline (baseConfig sim1) * (5 / 10) / 1000
                * (real_of_int (sampleInterval (simulation cfg)) / 3600)"
    using Suc.prems bc by simp
  have above: "\<forall>r' \<in> set (fst (generateReadings cfg n sim1
                 (Date_plus t (sampleInterval (simulation cfg) * 1000)) rs1)).
               energy_kwh r < energy_kwh r'"
    using generateReadings_energy_above [OF si inc1] e by simp
  show ?case using above Suc.IH [OF inc1] by (simp add: g split_beta Let_def)
qed

text \<open>
  C10. Each tick adds to the simulator's energy counter the power computed before any
  anomaly, in kW, times \<open>sampleInterval / 3600\<close> hours, and reports the counter rounded to
  four decimals. The power is floored at half the profile's baseline; where the sample
  interval is positive and half the baseline adds more than the rounding step of 0.0001
  kWh per tick (as for every profile of the configuration), the increment is positive and
  the reported \<open>energy_kwh\<close> is greater than the value reported before, so the reported
  values of successive readings increase strictly. The anomaly state changes neither the
  counter nor the reported energy.
\<close>

theorem energy_strictly_increasing:
  assumes si: "0 < sampleInterval (simulation cfg)"
    and inc: "1 / 10000 < baseline (baseConfig sim) * (5 / 10) / 1000
                * (real_of_int (sampleInterval (simulation cfg)) / 3600)"
  shows "(let (r, sim', rs') = generateMeterReading cfg sim t rs;
              step = fst (noisyFlooredPower cfg sim t rs) / 1000
                       * (real_of_int (sampleInterval (simulation cfg)) / 3600)
          in this_energy_kwh sim' = this_energy_kwh sim + step \<and>
             0 < step \<and>
             energy_kwh r = toFixed 4 (this_energy_kwh sim') \<and>
             toFixed 4 (this_energy_kwh sim) < energy_kwh r \<and>
             (\<forall>a k.
                this_energy_kwh
                  (fst (snd (generateMeterReading cfg
                               (sim\<lparr>anomaly := a, anomalyRemaining := k\<rparr>) t rs)))
                  = this_energy_kwh sim' \<and>
                energy_kwh
                  (fst (generateMeterReading cfg
                          (sim\<lparr>anomaly := a, anomalyRemaining := k\<rparr>) t rs))
                  = energy_kwh r)) \<and>
         sorted_wrt (<) (map energy_kwh (fst (generateReadings cfg n sim t rs)))"
proof -
  obtain r sim' rs' where g: "generateMeterReading cfg sim t rs = (r, sim', rs')"
    by (cases "generateMeterReading cfg sim t rs") auto
  let ?step = "fst (noisyFlooredPower cfg sim t rs) / 1000
                 * (real_of_int (sampleInterval (simulation cfg)) / 3600)"
  have a: "this_energy_kwh sim' = this_energy_kwh sim + ?step"
    using generateMeterReading_energy(1) [of cfg sim t rs] g by simp
  have b: "0 < ?step" using energy_step_bound [OF si inc, of t rs] by linarith
  have c: "energy_kwh r = toFixed 4 (this_energy_kwh sim')"
    using generateMeterReading_energy(2) [of cfg sim t rs] g by simp
  have d: "toFixed 4 (this_energy_kwh sim) < energy_kwh r"
    using generateMeterReading_energy_increases [OF si inc, of t rs] g by simp
  have e: "this_energy_kwh
             (fst (snd (generateMeterReading cfg
                          (sim\<lparr>anomaly := a, anomalyRemaining := k\<rparr>) t rs)))
             = this_energy_kwh sim' \<and>
           energy_kwh
             (fst (generateMeterReading cfg
                     (sim\<lparr>anomaly := a, anomalyRemaining := k\<rparr>) t rs))
             = energy_kwh r" for a k
    using a c by (simp add: generateMeterReading_energy noisyFlooredPower_anomaly_independent)
  have f: "sorted_wrt (<) (map energy_kwh (fst (generateReadings cfg n sim t rs)))"
    by (rule generateReadings_energy_sorted [OF si inc])
  show ?thesis using a b c d e f by (simp add: g Let_def)
qed

lemma toFixed4_example: "toFixed 4 (3458 / 600000) = 58 / 10000" "toFixed 4 0 = 0"
  by (simp_all add: toFixed_def)

theorem energy_strictly_increasing_witness:
  "this_energy_kwh (fst (snd (generateMeterReading config sim_normal june15 (sconst (1 / 2)))))
     = 3458 / 600000 \<and>
   energy_kwh (fst (generateMeterReading config sim_normal june15 (sconst (1 / 2))))
     = 58 / 10000 \<and>
   sorted_wrt (<)
     (map energy_kwh (fst (generateReadings config 3 sim_vacation june15 (sconst (1 / 2)))))"
proof -
  let ?g = "generateMeterReading config sim_normal june15 (sconst (1 / 2))"
  have si: "0 < sampleInterval (simulation config)" by (simp add: config_fields)
  have n: "1 / 10000 < baseline (baseConfig sim_normal) * (5 / 10) / 1000
             * (real_of_int (sampleInterval (simulation config)) / 3600)"
    by (simp add: config_fields baseline_normal)
  have v: "1 / 10000 < baseline (baseConfig sim_vacation) * (5 / 10) / 1000
             * (real_of_int (sampleInterval (simulation config)) / 3600)"
    by (simp add: config_fields sim_vacation_def profile_vacation_def)
  have e0: "this_energy_kwh sim_normal = 0" by (simp add: sim_normal_def)
  have step: "fst (noisyFlooredPower config sim_normal june15 (sconst (1 / 2))) / 1000
                * (real_of_int (sampleInterval (simulation config)) / 3600) = 3458 / 600000"
    by (simp add: noisyFlooredPower_june15 config_fields)
  from energy_strictly_increasing [OF si n, of june15 "sconst (1 / 2)" 0]
  have a: "this_energy_kwh (fst (snd ?g)) = 3458 / 600000"
    and b: "energy_kwh (fst ?g) = toFixed 4 (this_energy_kwh (fst (snd ?g)))"
    unfolding step by (simp_all add: split_beta Let_def e0)
  have c: "energy_kwh (fst ?g) = 58 / 10000"
    unfolding b a by (rule toFixed4_example(1))
  from energy_strictly_increasing [OF si v, of june15 "sconst (1 / 2)" 3]
  have d: "sorted_wrt (<)
     (map energy_kwh (fst (generateReadings config 3 sim_vacation june15 (sconst (1 / 2)))))"
    by blast
  show ?thesis using a c d by blast
qed

subsection \<open>Occasional appliances\<close>

lemma occasional_step_cases:
  "fst (occasional_step d tm (n, occ) (act, rs)) = act \<or>
   (map_of act n = None \<and>
    fst (occasional_step d tm (n, occ) (act, rs)) =
      AList.update n \<lparr>act_power = occ_power occ,
                      endTime = Date_plus d (occ_duration occ * 60000)\<rparr> act)"
  by (simp add: occasional_step_def Math_random_def Let_def split_beta)

lemma occasional_step_distinct:
  "distinct (map fst act) \<Longrightarrow> distinct (map fst (fst (occasional_step d tm x (act, rs))))"
  using occasional_step_cases [of d tm "fst x" "snd x" act rs]
  by (auto simp add: distinct_update)

lemma occasional_step_keeps:
  "map_of act n = Some a \<Longrightarrow> map_of (fst (occasional_step d tm x (act, rs))) n = Some a"
  using occasional_step_cases [of d tm "fst x" "snd x" act rs]
  by (auto simp add: update_conv')

lemma occasional_step_new:
  assumes "map_of act n = None"
    and "map_of (fst (occasional_step d tm x (act, rs))) n = Some a"
  shows "fst x = n \<and>
         a = \<lparr>act_power = occ_power (snd x),
              endTime = Date_plus d (occ_duration (snd x) * 60000)\<rparr>"
  using occasional_step_cases [of d tm "fst x" "snd x" act rs] assms
  by (auto simp add: update_conv' split: if_splits)

lemma fold_occasional_distinct:
  "distinct (map fst act) \<Longrightarrow>
   distinct (map fst (fst (fold (occasional_step d tm) xs (act, rs))))"
proof (induction xs arbitrary: act rs)
  case Nil
  then show ?case by simp
next
  case (Cons x xs)
  obtain act1 rs1 where s: "occasional_step d tm x (act, rs) = (act1, rs1)"
    by (cases "occasional_step d tm x (act, rs)") auto
  have "distinct (map fst act1)"
    using occasional_step_distinct [OF Cons.prems, of d tm x rs] s by simp
  from Cons.IH [OF this] show ?case by (simp add: s)
qed

lemma fold_occasional_keeps:
  "map_of act n = Some a \<Longrightarrow>
   map_of (fst (fold (occasional_step d tm) xs (act, rs))) n = Some a"
proof (induction xs arbitrary: act rs)
  case Nil
  then show ?case by simp
next
  case (Cons x xs)
  obtain act1 rs1 where s: "occasional_step d tm x (act, rs) = (act1, rs1)"
    by (cases "occasional_step d tm x (act, rs)") auto
  have "map_of act1 n = Some a"
    using occasional_step_keeps [OF Cons.prems, of d tm x rs] s by simp
  from Cons.IH [OF this] show ?case by (simp add: s)
qed

lemma fold_occasional_new:
  "map_of act n = None \<Longrightarrow>
   map_of (fst (fold (occasional_step d tm) xs (act, rs))) n = Some a \<Longrightarrow>
   \<exists>occ. (n, occ) \<in> set xs \<and>
         a = \<lparr>act_power = occ_power occ, endTime = Date_plus d (occ_duration occ * 60000)\<rparr>"
proof (induction xs arbitrary: act rs)
  case Nil
  then show ?case by simp
next
  case (Cons x xs)
  obtain act1 rs1 where s: "occasional_step d tm x (act, rs) = (act1, rs1)"
    by (cases "occasional_step d tm x (act, rs)") auto
  have fin: "map_of (fst (fold (occasional_step d tm) xs (act1, rs1))) n = Some a"
    using Cons.prems(2) by (simp add: s)
  show ?case
  proof (cases "map_of act1 n")
    case None
    from Cons.IH [OF None fin] show ?thesis by auto
  next
    case (Some a1)
    have "map_of (fst (fold (occasional_step d tm) xs (act1, rs1))) n = Some a1"
      by (rule fold_occasional_keeps [OF Some])
    then have "a1 = a" using fin by simp
    moreover have "fst x = n \<and>
         a1 = \<lparr>act_power = occ_power (snd x),
               endTime = Date_plus d (occ_duration (snd x) * 60000)\<rparr>"
      using occasional_step_new [OF Cons.prems(1), of d tm x rs a1] s Some by simp
    ultimately have "(n, snd x) \<in> set (x # xs) \<and>
         a = \<lparr>act_power = occ_power (snd x),
              endTime = Date_plus d (occ_duration (snd x) * 60000)\<rparr>"
      by (cases x) auto
    then show ?thesis by blast
  qed
qed

lemma update_step_pair:
  "update_step d (n, a) (l, act) =
     (if getTime date_end \<le> getTime d then (l, AList.delete n act)
      else (l + act_power a, act))" if "date_end = endTime a"
  using that by (simp add: update_step_def)

lemma fold_update_step:
  "fold (update_step d) xs (l, act) =
     (l + (\<Sum>(n, a) \<leftarrow> filter (\<lambda>(n, a). getTime d < getTime (endTime a)) xs. act_power a),
      filter (\<lambda>(n, a). n \<notin> fst ` {x \<in> set xs. getTime (endTime (snd x)) \<le> getTime d}) act)"
proof (induction xs arbitrary: l act)
  case Nil
  then show ?case by simp
next
  case (Cons x xs)
  obtain n a where x: "x = (n, a)" by (cases x)
  show ?case
  proof (cases "getTime (endTime a) \<le> getTime d")
    case True
    have S: "fst ` {x \<in> set ((n, a) # xs). getTime (endTime (snd x)) \<le> getTime d}
               = insert n (fst ` {x \<in> set xs. getTime (endTime (snd x)) \<le> getTime d})"
      using True by force
    have "filter (\<lambda>(n', a'). n' \<notin> fst ` {x \<in> set xs. getTime (endTime (snd x)) \<le> getTime d})
            (AList.delete n act)
          = filter (\<lambda>(n', a'). n' \<notin> fst ` {x \<in> set ((n, a) # xs).
                       getTime (endTime (snd x)) \<le> getTime d}) act"
      unfolding S by (auto simp add: AList.delete_eq intro!: filter_cong)
    then show ?thesis
      using True by (simp add: x update_step_pair [OF refl] Cons.IH del: set_simps)
  next
    case False
    have "{x \<in> set ((n, a) # xs). getTime (endTime (snd x)) \<le> getTime d}
            = {x \<in> set xs. getTime (endTime (snd x)) \<le> getTime d}"
      using False by auto
    then show ?thesis
      using False by (simp add: x update_step_pair [OF refl] Cons.IH del: set_simps)
  qed
qed

lemma updateActiveAppliances_filter:
  assumes "distinct (map fst (activeAppliances sim))"
  shows "activeAppliances (snd (updateActiveAppliances sim d)) =
           filter (\<lambda>(n, a). getTime d < getTime (endTime a)) (activeAppliances sim)"
    and "fst (updateActiveAppliances sim d) =
           (\<Sum>(n, a) \<leftarrow> activeAppliances (snd (updateActiveAppliances sim d)). act_power a)"
proof -
  let ?xs = "activeAppliances sim"
  have eq: "filter (\<lambda>(n, a). n \<notin> fst ` {x \<in> set ?xs. getTime (endTime (snd x)) \<le> getTime d}) ?xs
        = filter (\<lambda>(n, a). getTime d < getTime (endTime a)) ?xs"
  proof (rule filter_cong [OF refl])
    fix x assume x: "x \<in> set ?xs"
    obtain n a where xa: "x = (n, a)" by (cases x)
    have "n \<in> fst ` {x \<in> set ?xs. getTime (endTime (snd x)) \<le> getTime d}
            \<longleftrightarrow> getTime (endTime a) \<le> getTime d"
    proof
      assume "n \<in> fst ` {x \<in> set ?xs. getTime (endTime (snd x)) \<le> getTime d}"
      then obtain a' where a': "(n, a') \<in> set ?xs" "getTime (endTime a') \<le> getTime d"
        by auto
      have "a' = a" using assms a'(1) x xa by (meson eq_key_imp_eq_value)
      then show "getTime (endTime a) \<le> getTime d" using a'(2) by simp
    next
      assume "getTime (endTime a) \<le> getTime d"
      then show "n \<in> fst ` {x \<in> set ?xs. getTime (endTime (snd x)) \<le> getTime d}"
        using x xa by force
    qed
    then show "(case x of (n, a) \<Rightarrow>
                  n \<notin> fst ` {x \<in> set ?xs. getTime (endTime (snd x)) \<le> getTime d})
             = (case x of (n, a) \<Rightarrow> getTime d < getTime (endTime a))"
      by (auto simp add: xa)
  qed
  show "activeAppliances (snd (updateActiveAppliances sim d)) =
           filter (\<lambda>(n, a). getTime d < getTime (endTime a)) (activeAppliances sim)"
    by (simp add: updateActiveAppliances_def fold_update_step eq)
  then show "fst (updateActiveAppliances sim d) =
           (\<Sum>(n, a) \<leftarrow> activeAppliances (snd (updateActiveAppliances sim d)). act_power a)"
    by (simp add: updateActiveAppliances_def fold_update_step)
qed

lemma generateMeterReading_activeAppliances:
  "activeAppliances (fst (snd (generateMeterReading cfg sim t rs))) =
     activeAppliances
       (snd (updateActiveAppliances
               (fst (startOccasionalAppliances cfg sim t (getTimePatternMultiplier cfg t) rs))
               t))"
  by (simp add: generateMeterReading_def noisyFlooredPower_def combineLoads_def split_beta
      Let_def checkAnomalies_frame split: option.splits)

text \<open>
  C8. The active occasional appliances are a map keyed by appliance name, so each
  appliance has at most one activation at any time: the keys are distinct in a new
  simulator and stay distinct through every tick. Starting changes no activation that is
  already held (a start is recorded only for a name with no activation), and a recorded
  activation has the configured power and the fixed end time of the tick's timestamp
  plus the configured duration in minutes. Updating removes exactly the activations
  whose end time is less than or equal to the tick's timestamp and returns the sum of
  the powers of all that remain.
\<close>

theorem occasional_activations:
  assumes "distinct (map fst (activeAppliances sim))"
  shows "(let (sim1, rs1) = startOccasionalAppliances cfg sim date tm rs;
              (activeLoad, sim2) = updateActiveAppliances sim1 date
          in distinct (map fst (activeAppliances sim1)) \<and>
             (\<forall>n a. map_of (activeAppliances sim) n = Some a
                      \<longrightarrow> map_of (activeAppliances sim1) n = Some a) \<and>
             (\<forall>n a. map_of (activeAppliances sim) n = None
                        \<and> map_of (activeAppliances sim1) n = Some a
                      \<longrightarrow> (\<exists>occ. (n, occ) \<in> set (occasionalAppliances cfg) \<and>
                             a = \<lparr>act_power = occ_power occ,
                                  endTime = Date_plus date (occ_duration occ * 60000)\<rparr>)) \<and>
             activeAppliances sim2 =
               filter (\<lambda>(n, a). getTime date < getTime (endTime a)) (activeAppliances sim1) \<and>
             activeLoad = (\<Sum>(n, a) \<leftarrow> activeAppliances sim2. act_power a) \<and>
             distinct (map fst (activeAppliances sim2))) \<and>
         distinct (map fst (activeAppliances (fst (snd (generateMeterReading cfg sim date rs)))))"
proof -
  have step: "distinct (map fst (activeAppliances sim1)) \<and>
      (\<forall>n a. map_of (activeAppliances sim) n = Some a
               \<longrightarrow> map_of (activeAppliances sim1) n = Some a) \<and>
      (\<forall>n a. map_of (activeAppliances sim) n = None
                 \<and> map_of (activeAppliances sim1) n = Some a
               \<longrightarrow> (\<exists>occ. (n, occ) \<in> set (occasionalAppliances cfg) \<and>
                      a = \<lparr>act_power = occ_power occ,
                           endTime = Date_plus date (occ_duration occ * 60000)\<rparr>)) \<and>
      activeAppliances sim2 =
        filter (\<lambda>(n, a). getTime date < getTime (endTime a)) (activeAppliances sim1) \<and>
      activeLoad = (\<Sum>(n, a) \<leftarrow> activeAppliances sim2. act_power a) \<and>
      distinct (map fst (activeAppliances sim2))"
    if s1: "startOccasionalAppliances cfg sim date tm' rs = (sim1, rs1)"
      and s2: "updateActiveAppliances sim1 date = (activeLoad, sim2)"
    for tm' sim1 rs1 activeLoad sim2
  proof -
    have act1: "activeAppliances sim1 =
        fst (fold (occasional_step date tm') (occasionalAppliances cfg)
               (activeAppliances sim, rs))"
      using startOccasionalAppliances_frame(1) [of cfg sim date tm' rs] s1 by simp
    have d1: "distinct (map fst (activeAppliances sim1))"
      unfolding act1 by (rule fold_occasional_distinct [OF assms])
    have keep: "\<forall>n a. map_of (activeAppliances sim) n = Some a
               \<longrightarrow> map_of (activeAppliances sim1) n = Some a"
      unfolding act1 by (simp add: fold_occasional_keeps)
    have new: "\<forall>n a. map_of (activeAppliances sim) n = None
                 \<and> map_of (activeAppliances sim1) n = Some a
               \<longrightarrow> (\<exists>occ. (n, occ) \<in> set (occasionalAppliances cfg) \<and>
                      a = \<lparr>act_power = occ_power occ,
                           endTime = Date_plus date (occ_duration occ * 60000)\<rparr>)"
      unfolding act1 using fold_occasional_new by blast
    have f: "activeAppliances sim2 =
        filter (\<lambda>(n, a). getTime date < getTime (endTime a)) (activeAppliances sim1)"
      using updateActiveAppliances_filter(1) [OF d1, of date] s2 by simp
    have l: "activeLoad = (\<Sum>(n, a) \<leftarrow> activeAppliances sim2. act_power a)"
      using updateActiveAppliances_filter(2) [OF d1, of date] s2 by simp
    have d2: "distinct (map fst (activeAppliances sim2))"
      unfolding f using d1 by (simp add: distinct_map_filter)
    show ?thesis using d1 keep new f l d2 by blast
  qed
  have tick: "distinct (map fst (activeAppliances (fst (snd (generateMeterReading cfg sim date rs)))))"
    unfolding generateMeterReading_activeAppliances
    using step [where tm' = "getTimePatternMultiplier cfg date",
        OF surjective_pairing surjective_pairing] by blast
  obtain sim1 rs1 where s1: "startOccasionalAppliances cfg sim date tm rs = (sim1, rs1)"
    by (cases "startOccasionalAppliances cfg sim date tm rs") auto
  obtain activeLoad sim2 where s2: "updateActiveAppliances sim1 date = (activeLoad, sim2)"
    by (cases "updateActiveAppliances sim1 date") auto
  show ?thesis
    unfolding s1 s2 Let_def prod.case
    using step [OF s1 s2] tick
    by blast
qed

lemma startOccasional_busy:
  "startOccasionalAppliances config sim_busy june15 1 rs_start =
     (sim_normal\<lparr>activeAppliances :=
        [(''microwave'', \<lparr>act_power = 1000, endTime = june15\<rparr>),
         (''water_pump'', \<lparr>act_power = 750, endTime = Date_plus june15 600000\<rparr>)]\<rparr>,
      sconst (1 / 2))"
  by (simp add: startOccasionalAppliances_def config_fields occasional_def occasional_step_def
      june15_fields Math_random_def rs_start_def sim_busy_def)

theorem occasional_activations_witness:
  "activeAppliances
     (snd (updateActiveAppliances
             (fst (startOccasionalAppliances config sim_busy june15 1 rs_start)) june15))
     = [(''water_pump'', \<lparr>act_power = 750, endTime = Date_plus june15 600000\<rparr>)] \<and>
   fst (updateActiveAppliances
          (fst (startOccasionalAppliances config sim_busy june15 1 rs_start)) june15) = 750"
proof -
  let ?S = "fst (startOccasionalAppliances config sim_busy june15 1 rs_start)"
  have d: "distinct (map fst (activeAppliances sim_busy))"
    by (simp add: sim_busy_def)
  from occasional_activations [OF d, of config june15 1 rs_start]
  have a: "activeAppliances (snd (updateActiveAppliances ?S june15)) =
             filter (\<lambda>(n, a). getTime june15 < getTime (endTime a)) (activeAppliances ?S)"
    and b: "fst (updateActiveAppliances ?S june15) =
             (\<Sum>(n, a) \<leftarrow> activeAppliances (snd (updateActiveAppliances ?S june15)).
                act_power a)"
    by (simp_all add: split_beta Let_def)
  have S: "activeAppliances ?S =
        [(''microwave'', \<lparr>act_power = 1000, endTime = june15\<rparr>),
         (''water_pump'', \<lparr>act_power = 750, endTime = Date_plus june15 600000\<rparr>)]"
    by (simp add: startOccasional_busy)
  have f: "filter (\<lambda>(n, a). getTime june15 < getTime (endTime a)) (activeAppliances ?S)
        = [(''water_pump'', \<lparr>act_power = 750, endTime = Date_plus june15 600000\<rparr>)]"
    unfolding S by (simp add: Date_plus_def)
  show ?thesis unfolding b a f by simp
qed

subsection \<open>Anomalies\<close>

lemma checkAnomalies_active:
  "0 < anomalyRemaining sim \<Longrightarrow>
   checkAnomalies cfg sim rs =
     (anomaly sim, sim\<lparr>anomalyRemaining := anomalyRemaining sim - 1\<rparr>, rs)"
  by (simp add: checkAnomalies_def)

lemma checkAnomalies_idle_no_draw:
  "anomalyRemaining sim \<le> 0 \<Longrightarrow>
   \<not> shd rs < anomaly_probability (anomalies cfg) * (15 / 10) \<Longrightarrow>
   checkAnomalies cfg sim rs = (None, sim, stl rs)"
  by (simp add: checkAnomalies_def Math_random_def Let_def)

lemma checkAnomalies_idle_draw:
  assumes "anomalyRemaining sim \<le> 0"
    and "shd rs < anomaly_probability (anomalies cfg) * (15 / 10)"
    and "types (anomalies cfg)
           ! nat \<lfloor>shd (stl rs) * real (length (types (anomalies cfg)))\<rfloor> = (name, kind)"
  shows "checkAnomalies cfg sim rs =
     (Some \<lparr>anom_multiplier = multiplier kind,
            anom_voltageMultiplier = voltageMultiplier kind,
            anom_duration = duration kind, anom_type = name\<rparr>,
      sim\<lparr>anomaly := Some \<lparr>anom_multiplier = multiplier kind,
            anom_voltageMultiplier = voltageMultiplier kind,
            anom_duration = duration kind, anom_type = name\<rparr>,
          anomalyRemaining := duration kind\<rparr>,
      stl (stl rs))"
  using assms by (simp add: checkAnomalies_def Math_random_def Let_def)

lemma checkAnomalies_cong:
  assumes "anomaly s1 = anomaly s2" "anomalyRemaining s1 = anomalyRemaining s2"
  shows "fst (checkAnomalies cfg s1 rs) = fst (checkAnomalies cfg s2 rs)"
    and "anomaly (fst (snd (checkAnomalies cfg s1 rs)))
           = anomaly (fst (snd (checkAnomalies cfg s2 rs)))"
    and "anomalyRemaining (fst (snd (checkAnomalies cfg s1 rs)))
           = anomalyRemaining (fst (snd (checkAnomalies cfg s2 rs)))"
    and "snd (snd (checkAnomalies cfg s1 rs)) = snd (snd (checkAnomalies cfg s2 rs))"
  by (simp_all add: checkAnomalies_def assms split_beta Let_def)

lemma generateMeterReading_checkAnomalies:
  fixes cfg sim t rs
  defines "c \<equiv> checkAnomalies cfg sim (sdrop (draws_before_noise cfg sim + 2) rs)"
  shows "anomaly_type (fst (generateMeterReading cfg sim t rs)) = map_option anom_type (fst c)"
    and "anomaly (fst (snd (generateMeterReading cfg sim t rs))) = anomaly (fst (snd c))"
    and "anomalyRemaining (fst (snd (generateMeterReading cfg sim t rs)))
           = anomalyRemaining (fst (snd c))"
    and "snd (snd (generateMeterReading cfg sim t rs)) = snd (snd c)"
proof -
  let ?p = "noisyFlooredPower cfg sim t rs"
  let ?sim3 = "(fst (snd ?p))\<lparr>this_energy_kwh :=
      this_energy_kwh (fst (snd ?p))
        + fst ?p / 1000 * (real_of_int (sampleInterval (simulation cfg)) / 3600)\<rparr>"
  let ?rs4 = "sdrop (draws_before_noise cfg sim + 2) rs"
  let ?c3 = "checkAnomalies cfg ?sim3 ?rs4"
  have a: "anomaly ?sim3 = anomaly sim" "anomalyRemaining ?sim3 = anomalyRemaining sim"
    by (simp_all add: noisyFlooredPower_frame)
  note cg = checkAnomalies_cong [OF a, of cfg ?rs4]
  have r: "anomaly_type (fst (generateMeterReading cfg sim t rs)) = map_option anom_type (fst ?c3)"
    by (simp add: generateMeterReading_def split_beta Let_def Math_random_def
        noisyFlooredPower_frame split: option.splits)
  have s: "fst (snd (generateMeterReading cfg sim t rs)) = fst (snd ?c3)"
    "snd (snd (generateMeterReading cfg sim t rs)) = snd (snd ?c3)"
    by (simp_all add: generateMeterReading_def split_beta Let_def Math_random_def
        noisyFlooredPower_frame split: option.splits)
  show "anomaly_type (fst (generateMeterReading cfg sim t rs)) = map_option anom_type (fst c)"
    unfolding r c_def using cg(1) by simp
  show "anomaly (fst (snd (generateMeterReading cfg sim t rs))) = anomaly (fst (snd c))"
    unfolding s c_def using cg(2) by simp
  show "anomalyRemaining (fst (snd (generateMeterReading cfg sim t rs)))
           = anomalyRemaining (fst (snd c))"
    unfolding s c_def using cg(3) by simp
  show "snd (snd (generateMeterReading cfg sim t rs)) = snd (snd c)"
    unfolding s c_def using cg(4) by simp
qed

subsection \<open>A tick depends on the draws it reads, and on nothing else of the source\<close>

lemma agree_shd: "agree (Suc n) rs rs' \<Longrightarrow> shd rs = shd rs'"
  unfolding agree_def by (metis snth.simps(1) zero_less_Suc)

lemma agree_stl: "agree (Suc n) rs rs' \<Longrightarrow> agree n (stl rs) (stl rs')"
  unfolding agree_def by (metis Suc_less_eq snth.simps(2))

lemma agree_mono: "agree n rs rs' \<Longrightarrow> m \<le> n \<Longrightarrow> agree m rs rs'"
  unfolding agree_def by simp

lemma agree_sdrop: "agree (m + n) rs rs' \<Longrightarrow> agree n (sdrop m rs) (sdrop m rs')"
  unfolding agree_def by (simp add: sdrop_snth)

lemma agree_refl: "agree n rs rs"
  by (simp add: agree_def)

lemma occasional_step_shd:
  "shd rs = shd rs' \<Longrightarrow>
   fst (occasional_step d tm x (act, rs)) = fst (occasional_step d tm x (act, rs'))"
  by (simp add: occasional_step_def Math_random_def split_beta Let_def)

lemma occasional_step_stl: "snd (occasional_step d tm x (act, rs)) = stl rs"
  by (simp add: occasional_step_def Math_random_def split_beta Let_def)

lemma fold_occasional_agree:
  "agree (length xs) rs rs' \<Longrightarrow>
   fst (fold (occasional_step d tm) xs (act, rs))
     = fst (fold (occasional_step d tm) xs (act, rs'))"
proof (induction xs arbitrary: act rs rs')
  case Nil
  then show ?case by simp
next
  case (Cons x xs)
  have a: "agree (Suc (length xs)) rs rs'" using Cons.prems by simp
  obtain A where s: "occasional_step d tm x (act, rs) = (A, stl rs)"
    "occasional_step d tm x (act, rs') = (A, stl rs')"
    by (metis occasional_step_shd [OF agree_shd [OF a]] occasional_step_stl prod.collapse)
  show ?case
    using Cons.IH [OF agree_stl [OF a], of A] by (simp add: s)
qed

lemma probabilistic_step_eligible:
  "eligible x \<Longrightarrow> shd rs = shd rs' \<Longrightarrow>
   fst (probabilistic_step tm x (l, rs)) = fst (probabilistic_step tm x (l, rs'))"
  "eligible x \<Longrightarrow> snd (probabilistic_step tm x (l, rs)) = stl rs"
  "\<not> eligible x \<Longrightarrow> probabilistic_step tm x (l, rs) = (l, rs)"
proof -
  obtain n a where x: "x = (n, a)" by (cases x)
  show "eligible x \<Longrightarrow> shd rs = shd rs' \<Longrightarrow>
   fst (probabilistic_step tm x (l, rs)) = fst (probabilistic_step tm x (l, rs'))"
    by (simp add: x probabilistic_step_def eligible_def Math_random_def Let_def)
  show "eligible x \<Longrightarrow> snd (probabilistic_step tm x (l, rs)) = stl rs"
    by (simp add: x probabilistic_step_def eligible_def Math_random_def Let_def)
  show "\<not> eligible x \<Longrightarrow> probabilistic_step tm x (l, rs) = (l, rs)"
    by (auto simp add: x probabilistic_step_def eligible_def)
qed

lemma fold_probabilistic_agree:
  "agree (length (filter eligible xs)) rs rs' \<Longrightarrow>
   fst (fold (probabilistic_step tm) xs (l, rs))
     = fst (fold (probabilistic_step tm) xs (l, rs'))"
proof (induction xs arbitrary: l rs rs')
  case Nil
  then show ?case by simp
next
  case (Cons x xs)
  show ?case
  proof (cases "eligible x")
    case True
    have a: "agree (Suc (length (filter eligible xs))) rs rs'"
      using Cons.prems True by simp
    obtain A where s: "probabilistic_step tm x (l, rs) = (A, stl rs)"
      "probabilistic_step tm x (l, rs') = (A, stl rs')"
      by (metis probabilistic_step_eligible(1) [OF True agree_shd [OF a]]
          probabilistic_step_eligible(2) [OF True] prod.collapse)
    show ?thesis
      using Cons.IH [OF agree_stl [OF a], of A] by (simp add: s)
  next
    case False
    then show ?thesis
      using Cons.prems Cons.IH [of rs rs' l]
      by (simp add: probabilistic_step_eligible(3))
  qed
qed

lemma combineLoads_agree:
  assumes "agree (draws_before_noise cfg sim) rs rs'"
  shows "fst (combineLoads cfg sim t rs) = fst (combineLoads cfg sim t rs')"
    and "fst (snd (combineLoads cfg sim t rs)) = fst (snd (combineLoads cfg sim t rs'))"
proof -
  let ?tm = "getTimePatternMultiplier cfg t"
  let ?n = "length (occasionalAppliances cfg)"
  have a1: "agree ?n rs rs'"
    using assms by (rule agree_mono) (simp add: draws_before_noise_def)
  have a2: "agree (length (filter eligible (appliances (baseConfig sim))))
              (sdrop ?n rs) (sdrop ?n rs')"
    using assms by (simp add: draws_before_noise_def agree_sdrop)
  have s: "fst (startOccasionalAppliances cfg sim t ?tm rs)
             = fst (startOccasionalAppliances cfg sim t ?tm rs')"
    by (simp add: startOccasionalAppliances_frame fold_occasional_agree [OF a1])
  have p: "fst (generateProbabilisticLoad (fst (startOccasionalAppliances cfg sim t ?tm rs')) t ?tm
                  (sdrop ?n rs))
         = fst (generateProbabilisticLoad (fst (startOccasionalAppliances cfg sim t ?tm rs')) t ?tm
                  (sdrop ?n rs'))"
    using fold_probabilistic_agree [OF a2]
    by (simp add: generateProbabilisticLoad_def startOccasionalAppliances_frame)
  show "fst (combineLoads cfg sim t rs) = fst (combineLoads cfg sim t rs')"
    by (simp add: combineLoads_def split_beta Let_def s p startOccasionalAppliances_frame(2))
  show "fst (snd (combineLoads cfg sim t rs)) = fst (snd (combineLoads cfg sim t rs'))"
    by (simp add: combineLoads_def split_beta Let_def s)
qed

lemma noisyFlooredPower_agree:
  assumes "agree (Suc (draws_before_noise cfg sim)) rs rs'"
  shows "fst (noisyFlooredPower cfg sim t rs) = fst (noisyFlooredPower cfg sim t rs')"
    and "fst (snd (noisyFlooredPower cfg sim t rs)) = fst (snd (noisyFlooredPower cfg sim t rs'))"
proof -
  let ?k = "draws_before_noise cfg sim"
  have a: "agree ?k rs rs'" using assms by (rule agree_mono) simp
  have h: "rs !! ?k = rs' !! ?k"
    using assms unfolding agree_def by simp
  show "fst (noisyFlooredPower cfg sim t rs) = fst (noisyFlooredPower cfg sim t rs')"
    by (simp add: noisyFlooredPower_def split_beta Let_def Math_random_def
        combineLoads_agree [OF a] combineLoads_frame(7) h)
  show "fst (snd (noisyFlooredPower cfg sim t rs)) = fst (snd (noisyFlooredPower cfg sim t rs'))"
    by (simp add: noisyFlooredPower_def split_beta Let_def combineLoads_agree [OF a])
qed



lemma draws_before_noise_normal: "draws_before_noise config sim_normal = 13"
  by (simp add: draws_before_noise_def config_fields sim_normal_def profile_normal_def
      eligible_def truthy_def cyclic_def probabilistic_def always_on_def)


subsection \<open>The anomaly of a tick\<close>

lemma tick_active:
  assumes "0 < anomalyRemaining sim"
  shows "anomaly_type (fst (generateMeterReading cfg sim t rs))
           = map_option anom_type (anomaly sim)"
    and "anomaly (fst (snd (generateMeterReading cfg sim t rs))) = anomaly sim"
    and "anomalyRemaining (fst (snd (generateMeterReading cfg sim t rs)))
           = anomalyRemaining sim - 1"
    and "snd (snd (generateMeterReading cfg sim t rs))
           = sdrop (draws_before_noise cfg sim + 2) rs"
  using generateMeterReading_checkAnomalies [of cfg sim t rs]
  by (simp_all add: checkAnomalies_active [OF assms])

lemma tick_idle_no_draw:
  assumes "anomalyRemaining sim \<le> 0"
    and "\<not> rs !! (draws_before_noise cfg sim + 2)
            < anomaly_probability (anomalies cfg) * (15 / 10)"
  shows "anomaly_type (fst (generateMeterReading cfg sim t rs)) = None"
    and "anomaly (fst (snd (generateMeterReading cfg sim t rs))) = anomaly sim"
    and "anomalyRemaining (fst (snd (generateMeterReading cfg sim t rs)))
           = anomalyRemaining sim"
    and "snd (snd (generateMeterReading cfg sim t rs))
           = sdrop (draws_before_noise cfg sim + 3) rs"
proof -
  let ?rs = "sdrop (draws_before_noise cfg sim + 2) rs"
  have d: "\<not> shd ?rs < anomaly_probability (anomalies cfg) * (15 / 10)"
    using assms(2) by simp
  have s: "stl ?rs = sdrop (draws_before_noise cfg sim + 3) rs"
    by (simp add: numeral_3_eq_3 numeral_2_eq_2)
  note c = checkAnomalies_idle_no_draw [OF assms(1) d]
  show "anomaly_type (fst (generateMeterReading cfg sim t rs)) = None"
    and "anomaly (fst (snd (generateMeterReading cfg sim t rs))) = anomaly sim"
    and "anomalyRemaining (fst (snd (generateMeterReading cfg sim t rs)))
           = anomalyRemaining sim"
    and "snd (snd (generateMeterReading cfg sim t rs))
           = sdrop (draws_before_noise cfg sim + 3) rs"
    unfolding generateMeterReading_checkAnomalies [of cfg sim t rs] c s [symmetric]
    by simp_all
qed

lemma tick_idle_draw:
  assumes "anomalyRemaining sim \<le> 0"
    and "rs !! (draws_before_noise cfg sim + 2)
            < anomaly_probability (anomalies cfg) * (15 / 10)"
    and "types (anomalies cfg)
           ! nat \<lfloor>rs !! (draws_before_noise cfg sim + 3)
                   * real (length (types (anomalies cfg)))\<rfloor> = (name, kind)"
  shows "anomaly_type (fst (generateMeterReading cfg sim t rs)) = Some name"
    and "anomaly (fst (snd (generateMeterReading cfg sim t rs))) =
           Some \<lparr>anom_multiplier = multiplier kind,
                 anom_voltageMultiplier = voltageMultiplier kind,
                 anom_duration = duration kind, anom_type = name\<rparr>"
    and "anomalyRemaining (fst (snd (generateMeterReading cfg sim t rs))) = duration kind"
    and "snd (snd (generateMeterReading cfg sim t rs))
           = sdrop (draws_before_noise cfg sim + 4) rs"
proof -
  let ?rs = "sdrop (draws_before_noise cfg sim + 2) rs"
  have d: "shd ?rs < anomaly_probability (anomalies cfg) * (15 / 10)"
    using assms(2) by simp
  have e: "shd (stl ?rs) = rs !! (draws_before_noise cfg sim + 3)"
    by (simp add: numeral_3_eq_3 numeral_2_eq_2)
  have p: "types (anomalies cfg)
           ! nat \<lfloor>shd (stl ?rs) * real (length (types (anomalies cfg)))\<rfloor> = (name, kind)"
    unfolding e by (rule assms(3))
  have s: "stl (stl ?rs) = sdrop (draws_before_noise cfg sim + 4) rs"
    by (simp add: eval_nat_numeral)
  note c = checkAnomalies_idle_draw [OF assms(1) d p]
  show "anomaly_type (fst (generateMeterReading cfg sim t rs)) = Some name"
    and "anomaly (fst (snd (generateMeterReading cfg sim t rs))) =
           Some \<lparr>anom_multiplier = multiplier kind,
                 anom_voltageMultiplier = voltageMultiplier kind,
                 anom_duration = duration kind, anom_type = name\<rparr>"
    and "anomalyRemaining (fst (snd (generateMeterReading cfg sim t rs))) = duration kind"
    and "snd (snd (generateMeterReading cfg sim t rs))
           = sdrop (draws_before_noise cfg sim + 4) rs"
    unfolding generateMeterReading_checkAnomalies [of cfg sim t rs] c s [symmetric]
    by simp_all
qed

lemma generateReadings_Suc:
  "fst (generateReadings cfg (Suc n) sim t rs) =
     fst (generateMeterReading cfg sim t rs)
       # fst (generateReadings cfg n (fst (snd (generateMeterReading cfg sim t rs)))
                (Date_plus t (sampleInterval (simulation cfg) * 1000))
                (snd (snd (generateMeterReading cfg sim t rs))))"
  by (simp add: split_beta Let_def)

text \<open>
  An anomaly that is active with \<open>k\<close> ticks remaining marks the next \<open>k\<close> readings.
\<close>

lemma anomaly_persists:
  "anomaly sim = Some a \<Longrightarrow> anomalyRemaining sim = int k \<Longrightarrow> n \<le> k \<Longrightarrow>
   map anomaly_type (fst (generateReadings cfg n sim t rs)) = replicate n (Some (anom_type a))"
proof (induction n arbitrary: sim t rs k)
  case 0
  then show ?case by simp
next
  case (Suc n)
  let ?g = "generateMeterReading cfg sim t rs"
  have pos: "0 < anomalyRemaining sim" using Suc.prems by simp
  obtain k' where k': "k = Suc k'" using Suc.prems(3) by (cases k) auto
  have 1: "anomaly_type (fst ?g) = Some (anom_type a)"
    using tick_active(1) [OF pos, of cfg t rs] Suc.prems(1) by simp
  have 2: "anomaly (fst (snd ?g)) = Some a"
    using tick_active(2) [OF pos, of cfg t rs] Suc.prems(1) by simp
  have 3: "anomalyRemaining (fst (snd ?g)) = int k'"
    using tick_active(3) [OF pos, of cfg t rs] Suc.prems(2) k' by simp
  have 4: "n \<le> k'" using Suc.prems(3) k' by simp
  show ?case
    unfolding generateReadings_Suc using 1 Suc.IH [OF 2 3 4] by simp
qed

text \<open>
  From the idle state, a tick that activates an anomaly of a kind with duration \<open>d\<close>
  marks its own reading and the \<open>d\<close> readings after it: \<open>d + 1\<close> readings in a row.
\<close>

lemma activation_marks_duration_plus_one:
  assumes "anomalyRemaining sim \<le> 0"
    and "rs !! (draws_before_noise cfg sim + 2)
            < anomaly_probability (anomalies cfg) * (15 / 10)"
    and "types (anomalies cfg)
           ! nat \<lfloor>rs !! (draws_before_noise cfg sim + 3)
                   * real (length (types (anomalies cfg)))\<rfloor> = (name, kind)"
    and "duration kind = int d"
  shows "map anomaly_type (fst (generateReadings cfg (Suc d) sim t rs))
           = replicate (Suc d) (Some name)"
proof -
  note tk = tick_idle_draw [OF assms(1-3), of t]
  have r: "anomalyRemaining (fst (snd (generateMeterReading cfg sim t rs))) = int d"
    using tk(3) assms(4) by simp
  show ?thesis
    unfolding generateReadings_Suc
    using tk(1) anomaly_persists [OF tk(2) r order_refl] by simp
qed

lemma generateMeterReading_power:
  fixes cfg sim t rs
  defines "c \<equiv> checkAnomalies cfg sim (sdrop (draws_before_noise cfg sim + 2) rs)"
    and "p \<equiv> toFixed 4 (fst (noisyFlooredPower cfg sim t rs) / 1000)"
  shows "global_active_power (fst (generateMeterReading cfg sim t rs)) =
           (case fst c of
              None \<Rightarrow> p
            | Some a \<Rightarrow> (case anom_multiplier a of None \<Rightarrow> p | Some m \<Rightarrow> p * m))"
proof -
  let ?p = "noisyFlooredPower cfg sim t rs"
  let ?sim3 = "(fst (snd ?p))\<lparr>this_energy_kwh :=
      this_energy_kwh (fst (snd ?p))
        + fst ?p / 1000 * (real_of_int (sampleInterval (simulation cfg)) / 3600)\<rparr>"
  let ?rs4 = "sdrop (draws_before_noise cfg sim + 2) rs"
  let ?c3 = "checkAnomalies cfg ?sim3 ?rs4"
  have a: "anomaly ?sim3 = anomaly sim" "anomalyRemaining ?sim3 = anomalyRemaining sim"
    by (simp_all add: noisyFlooredPower_frame)
  have r: "global_active_power (fst (generateMeterReading cfg sim t rs)) =
           (case fst ?c3 of
              None \<Rightarrow> p
            | Some a \<Rightarrow> (case anom_multiplier a of None \<Rightarrow> p | Some m \<Rightarrow> p * m))"
    by (simp add: generateMeterReading_def split_beta Let_def Math_random_def p_def
        noisyFlooredPower_frame applyAnomaly_def split: option.splits)
  show ?thesis
    unfolding r c_def using checkAnomalies_cong(1) [OF a, of cfg ?rs4] by simp
qed

lemma draws_before_noise_profile_normal:
  "baseConfig s = profile_normal \<Longrightarrow> draws_before_noise config s = 13"
  by (simp add: draws_before_noise_def config_fields profile_normal_def
      eligible_def truthy_def cyclic_def probabilistic_def always_on_def)

lemma rs_surge_draws:
  "rs_surge !! 15 = 1 / 1000" "rs_surge !! 16 = 1 / 10" "sdrop 17 rs_surge = sconst (1 / 2)"
  by (simp_all add: rs_surge_def sdrop_shift eval_nat_numeral)

lemma rs_surge_agree: "agree 14 rs_surge (sconst (1 / 2))"
  by (simp add: rs_surge_def agree_def)

lemma powerSurge_pick:
  "types (anomalies config) ! nat \<lfloor>(1 / 10 :: real) * real (length (types (anomalies config)))\<rfloor>
     = (''powerSurge'',
        \<lparr>multiplier = Some (25 / 10), voltageMultiplier = None, duration = 2\<rparr>)"
  by (simp add: config_def)

text \<open>
  C2. The configured kind \<open>powerSurge\<close> has duration 2. A normal-profile simulator in the
  idle state whose first tick activates that kind (the draws \<open>rs_surge\<close>) marks three
  consecutive readings with the anomaly, one more than the duration, and the fourth
  reading with none; the first of them reports the tick's power of 0.3458 kW scaled by the
  kind's multiplier 2.5.
\<close>

theorem anomaly_outlasts_duration:
  "map_of (types (anomalies config)) ''powerSurge''
     = Some \<lparr>multiplier = Some (25 / 10), voltageMultiplier = None, duration = 2\<rparr> \<and>
   anomalyRemaining sim_normal = 0 \<and>
   map anomaly_type (fst (generateReadings config 4 sim_normal june15 rs_surge))
     = [Some ''powerSurge'', Some ''powerSurge'', Some ''powerSurge'', None] \<and>
   global_active_power (hd (fst (generateReadings config 4 sim_normal june15 rs_surge)))
     = 8645 / 10000"
proof -
  have p15: "anomaly_probability (anomalies config) * (15 / 10) = 225 / 100000"
    by (simp add: config_fields)
  let ?si = "sampleInterval (simulation config) * 1000"
  define g1 where "g1 = generateMeterReading config sim_normal june15 rs_surge"
  define t2 where "t2 = Date_plus june15 ?si"
  define g2 where "g2 = generateMeterReading config (fst (snd g1)) t2 (snd (snd g1))"
  define t3 where "t3 = Date_plus t2 ?si"
  define g3 where "g3 = generateMeterReading config (fst (snd g2)) t3 (snd (snd g2))"
  define t4 where "t4 = Date_plus t3 ?si"
  define g4 where "g4 = generateMeterReading config (fst (snd g3)) t4 (snd (snd g3))"
  have four: "(4::nat) = Suc (Suc (Suc (Suc 0)))" by simp
  have R: "fst (generateReadings config 4 sim_normal june15 rs_surge)
             = [fst g1, fst g2, fst g3, fst g4]"
    unfolding four generateReadings_Suc g1_def g2_def g3_def g4_def t2_def t3_def t4_def
    by simp
  \<comment> \<open>the first tick: idle, the draw succeeds, the first kind is picked\<close>
  have k0: "draws_before_noise config sim_normal = 13"
    by (rule draws_before_noise_normal)
  have i0: "anomalyRemaining sim_normal \<le> 0" by (simp add: sim_normal_def)
  have d0: "rs_surge !! (draws_before_noise config sim_normal + 2)
              < anomaly_probability (anomalies config) * (15 / 10)"
    unfolding k0 p15 by (simp add: rs_surge_draws)
  have c0: "types (anomalies config)
              ! nat \<lfloor>rs_surge !! (draws_before_noise config sim_normal + 3)
                      * real (length (types (anomalies config)))\<rfloor>
            = (''powerSurge'',
               \<lparr>multiplier = Some (25 / 10), voltageMultiplier = None, duration = 2\<rparr>)"
    unfolding k0 using powerSurge_pick by (simp add: rs_surge_draws)
  note tk1 = tick_idle_draw [OF i0 d0 c0, of june15, folded g1_def]
  have b1: "baseConfig (fst (snd g1)) = profile_normal"
    unfolding g1_def by (simp add: generateMeterReading_energy(3) sim_normal_def)
  have x1: "snd (snd g1) = sconst (1 / 2)"
    using tk1(4) unfolding k0 by (simp add: rs_surge_draws)
  have a1: "anomaly_type (fst g1) = Some ''powerSurge''" by (rule tk1(1))
  have r1: "anomalyRemaining (fst (snd g1)) = 2" using tk1(3) by simp
  \<comment> \<open>the second and the third tick: active\<close>
  have pos1: "0 < anomalyRemaining (fst (snd g1))" using r1 by simp
  note tk2 = tick_active [OF pos1, of config t2 "snd (snd g1)", folded g2_def]
  have b2: "baseConfig (fst (snd g2)) = profile_normal"
    unfolding g2_def by (simp add: generateMeterReading_energy(3) b1)
  have x2: "snd (snd g2) = sconst (1 / 2)"
    using tk2(4) by (simp add: x1)
  have a2: "anomaly_type (fst g2) = Some ''powerSurge''"
    using tk2(1) tk1(2) by simp
  have r2: "anomalyRemaining (fst (snd g2)) = 1" using tk2(3) r1 by simp
  have pos2: "0 < anomalyRemaining (fst (snd g2))" using r2 by simp
  note tk3 = tick_active [OF pos2, of config t3 "snd (snd g2)", folded g3_def]
  have b3: "baseConfig (fst (snd g3)) = profile_normal"
    unfolding g3_def by (simp add: generateMeterReading_energy(3) b2)
  have x3: "snd (snd g3) = sconst (1 / 2)"
    using tk3(4) by (simp add: x2)
  have a3: "anomaly_type (fst g3) = Some ''powerSurge''"
    using tk3(1) tk2(2) tk1(2) by simp
  have r3: "anomalyRemaining (fst (snd g3)) = 0" using tk3(3) r2 by simp
  \<comment> \<open>the fourth tick: idle again, and the draw fails\<close>
  have i3: "anomalyRemaining (fst (snd g3)) \<le> 0" using r3 by simp
  have d3: "\<not> snd (snd g3) !! (draws_before_noise config (fst (snd g3)) + 2)
              < anomaly_probability (anomalies config) * (15 / 10)"
    unfolding x3 p15 by simp
  note tk4 = tick_idle_no_draw [OF i3 d3, of t4, folded g4_def]
  have a4: "anomaly_type (fst g4) = None" by (rule tk4(1))
  \<comment> \<open>the power the first reading reports\<close>
  have P: "fst (noisyFlooredPower config sim_normal june15 rs_surge) = 3458 / 10"
    using noisyFlooredPower_agree(1) [of config sim_normal rs_surge "sconst (1 / 2)" june15]
    by (simp add: k0 rs_surge_agree noisyFlooredPower_june15)
  have c: "fst (checkAnomalies config sim_normal
                  (sdrop (draws_before_noise config sim_normal + 2) rs_surge))
           = Some \<lparr>anom_multiplier = Some (25 / 10), anom_voltageMultiplier = None,
                   anom_duration = 2, anom_type = ''powerSurge''\<rparr>"
  proof -
    let ?rs = "sdrop (draws_before_noise config sim_normal + 2) rs_surge"
    have d: "shd ?rs < anomaly_probability (anomalies config) * (15 / 10)"
      using d0 by simp
    have e: "shd (stl ?rs) = rs_surge !! (draws_before_noise config sim_normal + 3)"
      by (simp add: numeral_3_eq_3 numeral_2_eq_2)
    have p: "types (anomalies config)
           ! nat \<lfloor>shd (stl ?rs) * real (length (types (anomalies config)))\<rfloor>
            = (''powerSurge'',
               \<lparr>multiplier = Some (25 / 10), voltageMultiplier = None, duration = 2\<rparr>)"
      unfolding e by (rule c0)
    show ?thesis unfolding checkAnomalies_idle_draw [OF i0 d p] by simp
  qed
  have t: "toFixed 4 (3458 / 10 / 1000) = 3458 / 10000" by (simp add: toFixed_def)
  have g: "global_active_power (fst g1) = 8645 / 10000"
    unfolding g1_def generateMeterReading_power c P t by simp
  have m: "map_of (types (anomalies config)) ''powerSurge''
     = Some \<lparr>multiplier = Some (25 / 10), voltageMultiplier = None, duration = 2\<rparr>"
    by (simp add: config_def)
  show ?thesis
    unfolding R using m a1 a2 a3 a4 g by (simp add: sim_normal_def)
qed

subsection \<open>The forecast comparator\<close>





subsection \<open>The real-time power state\<close>

lemma power_invariant_empty: "power_invariant catalog Map.empty"
  by (simp add: power_invariant_def)

lemma sum_interactive_kw_all_off:
  "sum_interactive_kw catalog
     (map (\<lambda>(aid, d). \<lparr>appliance_id = aid, is_on = False, last_toggled_at = now\<rparr>) xs) = 0"
proof -
  have "filter is_on
          (map (\<lambda>(aid, d). \<lparr>appliance_id = aid, is_on = False, last_toggled_at = now\<rparr>) xs)
        = []"
    by (induction xs) (simp_all add: split_beta)
  then show ?thesis by (simp add: sum_interactive_kw_def)
qed


lemma power_invariant_update:
  assumes "power_invariant catalog store"
    and "total_kw (power_state h) = background_kw (power_state h) + interactive_kw (power_state h)"
    and "interactive_kw (power_state h) = sum_interactive_kw catalog (appliance_states h)"
  shows "power_invariant catalog (store(hid \<mapsto> h))"
  unfolding power_invariant_def
proof (intro allI impI)
  fix hid' h'
  assume s: "(store(hid \<mapsto> h)) hid' = Some h'"
  show "total_kw (power_state h')
          = background_kw (power_state h') + interactive_kw (power_state h') \<and>
        interactive_kw (power_state h') = sum_interactive_kw catalog (appliance_states h')"
  proof (cases "hid' = hid")
    case True
    then have "h' = h" using s by simp
    then show ?thesis using assms(2,3) by simp
  next
    case False
    then have "store hid' = Some h'" using s by simp
    then show ?thesis using assms(1) unfolding power_invariant_def by blast
  qed
qed

lemma toggle_invariant:
  assumes "power_invariant catalog store"
    and "toggle catalog hid aid on now store = Inr store'"
  shows "power_invariant catalog store'"
proof -
  obtain h where h: "store hid = Some h"
    using assms(2) by (cases "store hid") (simp_all add: toggle_def)
  let ?states = "map (set_state aid on now) (appliance_states h)"
  let ?h' = "\<lparr>appliance_states = ?states,
             power_state = write_interactive (sum_interactive_kw catalog ?states) now
                             (power_state h)\<rparr>"
  have s: "store' = store(hid \<mapsto> ?h')"
    using assms(2) h by (simp add: toggle_def Let_def split: if_splits)
  show ?thesis
    unfolding s
    by (rule power_invariant_update [OF assms(1)]) (simp_all add: write_interactive_def)
qed

lemma tick_write_invariant:
  assumes "power_invariant catalog store"
    and "tick_write hid bg now store = Inr store'"
  shows "power_invariant catalog store'"
proof -
  obtain h where h: "store hid = Some h"
    using assms(2) by (cases "store hid") (simp_all add: tick_write_def)
  have inv: "interactive_kw (power_state h) = sum_interactive_kw catalog (appliance_states h)"
    using assms(1) h unfolding power_invariant_def by blast
  have s: "store' = store(hid \<mapsto> h\<lparr>power_state := write_background bg now (power_state h)\<rparr>)"
    using assms(2) h by (simp add: tick_write_def)
  show ?thesis
    unfolding s
    by (rule power_invariant_update [OF assms(1)]) (simp_all add: write_background_def inv)
qed

lemma initialize_invariant:
  "power_invariant catalog store \<Longrightarrow> power_invariant catalog (initialize catalog hid now store)"
  unfolding initialize_def
  by (rule power_invariant_update) (simp_all add: sum_interactive_kw_all_off)

lemma apply_event_invariant:
  assumes "power_invariant catalog store" and "apply_event catalog e store = Inr store'"
  shows "power_invariant catalog store'"
proof (cases e)
  case (Initialize hid now)
  then show ?thesis using assms initialize_invariant [OF assms(1)] by auto
next
  case (Toggle hid aid on now)
  then show ?thesis using assms toggle_invariant [OF assms(1)] by simp
next
  case (Tick hid bg now)
  then show ?thesis using assms tick_write_invariant [OF assms(1)] by simp
qed

lemma run_events_invariant:
  "power_invariant catalog store \<Longrightarrow> power_invariant catalog (run_events catalog es store)"
proof (induction es arbitrary: store)
  case Nil
  then show ?case by simp
next
  case (Cons e es)
  show ?case
  proof (cases "apply_event catalog e store")
    case (Inl err)
    then show ?thesis using Cons by simp
  next
    case (Inr store')
    then show ?thesis using Cons apply_event_invariant [OF Cons.prems Inr] by simp
  qed
qed

text \<open>
  C1. In every household of the store, \<open>total_kw = background_kw + interactive_kw\<close>, and
  \<open>interactive_kw\<close> is the sum of the rated watts of the appliances that are on, divided
  by 1000: this holds in the empty store, after every accepted event (a simulator tick, a
  toggle, an initialization) from a store in which it holds, and so after every prefix of
  every sequence of events.
\<close>

theorem power_state_invariant:
  "(power_invariant catalog store \<and> apply_event catalog e store = Inr store'
      \<longrightarrow> power_invariant catalog store') \<and>
   (\<forall>n. power_invariant catalog (run_events catalog (take n events) Map.empty))"
  using apply_event_invariant [of catalog store e store']
    run_events_invariant [OF power_invariant_empty]
  by blast

lemma sample_run:
  "run_events sample_catalog sample_events Map.empty ''h1'' =
     Some \<lparr>appliance_states =
             [\<lparr>appliance_id = ''tv'', is_on = False, last_toggled_at = 7\<rparr>,
              \<lparr>appliance_id = ''microwave'', is_on = True, last_toggled_at = 5\<rparr>],
           power_state =
             \<lparr>background_kw = 3 / 4, interactive_kw = 1, total_kw = 7 / 4, updated_at = 7\<rparr>\<rparr>"
  by (simp add: sample_events_def sample_catalog_def initialize_def tick_write_def toggle_def
      write_background_def write_interactive_def set_state_def sum_interactive_kw_def
      rated_watts_of_def)

theorem power_state_invariant_witness:
  "(\<exists>h. run_events sample_catalog sample_events Map.empty ''h1'' = Some h \<and>
        background_kw (power_state h) = 3 / 4 \<and>
        interactive_kw (power_state h) = 1 \<and>
        total_kw (power_state h) = 7 / 4 \<and>
        total_kw (power_state h) = background_kw (power_state h) + interactive_kw (power_state h) \<and>
        interactive_kw (power_state h)
          = sum_interactive_kw sample_catalog (appliance_states h))"
proof -
  have "power_invariant sample_catalog
          (run_events sample_catalog (take (length sample_events) sample_events) Map.empty)"
    using power_state_invariant [of sample_catalog] by blast
  then have "power_invariant sample_catalog
          (run_events sample_catalog sample_events Map.empty)"
    by simp
  then have "total_kw (power_state h)
               = background_kw (power_state h) + interactive_kw (power_state h) \<and>
             interactive_kw (power_state h)
               = sum_interactive_kw sample_catalog (appliance_states h)"
    if "run_events sample_catalog sample_events Map.empty ''h1'' = Some h" for h
    unfolding power_invariant_def using that by blast
  then show ?thesis using sample_run by simp
qed

subsection \<open>Runs with different draws\<close>








end
